theory Spec2Isabelle
  imports Complex_Main
begin

section \<open>Strings\<close>

text \<open>
  A JavaScript string is modelled as a \<^typ>\<open>string\<close>: a sequence of code units below 256.
  The string methods the program calls are written out on lists.
\<close>

definition startsWith :: "string \<Rightarrow> string \<Rightarrow> bool" where
  "startsWith s p = (take (length p) s = p)"

fun includesStr :: "string \<Rightarrow> string \<Rightarrow> bool" where
  "includesStr [] p = (p = [])"
| "includesStr (c # cs) p = (startsWith (c # cs) p \<or> includesStr cs p)"

text \<open>
  White space and line terminators of the language among the code units below 256: tab,
  line feed, vertical tab, form feed, carriage return, space and no-break space. They are
  what \<^verbatim>\<open>\s\<close> matches and what \<^verbatim>\<open>trim\<close> strips.
\<close>

definition isSpace :: "char \<Rightarrow> bool" where
  "isSpace ch = (of_char ch \<in> {9, 10, 11, 12, 13, 32, 160 :: nat})"

definition trim :: "string \<Rightarrow> string" where
  "trim s = rev (dropWhile isSpace (rev (dropWhile isSpace s)))"

section \<open>Values\<close>

text \<open>
  A number is NaN or a real; a date is its time value. Arrays met as property values are
  sequences of strings, the shape the data model gives a TextChoices value; every other
  object is \<open>VObject\<close>.
\<close>

datatype jsnum = NaN | Num real

datatype jsval =
    VUndefined
  | VNull
  | VBool bool
  | VNum jsnum
  | VStr string
  | VArr "string list"
  | VDate int
  | VObject

fun truthy :: "jsval \<Rightarrow> bool" where
  "truthy VUndefined = False"
| "truthy VNull = False"
| "truthy (VBool b) = b"
| "truthy (VNum NaN) = False"
| "truthy (VNum (Num x)) = (x \<noteq> 0)"
| "truthy (VStr s) = (s \<noteq> [])"
| "truthy (VArr xs) = True"
| "truthy (VDate d) = True"
| "truthy VObject = True"

section \<open>URL Locator\<close>

text \<open>
  An inline content item: its kind \<open>t\<close>, the target \<open>url\<close> of a link (absent on other
  items) and its text \<open>v\<close>.
\<close>

record item =
  t :: string
  url :: "string option"
  v :: jsval

record block =
  content :: "item list option"

text \<open>
  \<^verbatim>\<open>s.match(/https?:\/\/[^\s]+/)\<close>. At one position the pattern matches when the text
  there is \<^verbatim>\<open>https://\<close> or \<^verbatim>\<open>http://\<close> followed by at least one character that is
  not white space; the match is the scheme and the longest such run. Without the optional
  \<^verbatim>\<open>s\<close> the text \<^verbatim>\<open>https\<close> cannot continue with \<^verbatim>\<open>://\<close>, so the two cases do not
  overlap. \<open>matchUrl\<close> is the match at the leftmost position that has one.
\<close>

definition matchUrlAt :: "string \<Rightarrow> string option" where
  "matchUrlAt s =
     (if startsWith s ''https://'' \<and> takeWhile (\<lambda>ch. \<not> isSpace ch) (drop 8 s) \<noteq> []
      then Some (''https://'' @ takeWhile (\<lambda>ch. \<not> isSpace ch) (drop 8 s))
      else if startsWith s ''http://'' \<and> takeWhile (\<lambda>ch. \<not> isSpace ch) (drop 7 s) \<noteq> []
      then Some (''http://'' @ takeWhile (\<lambda>ch. \<not> isSpace ch) (drop 7 s))
      else None)"

fun matchUrl :: "string \<Rightarrow> string option" where
  "matchUrl [] = None"
| "matchUrl (c # cs) =
     (case matchUrlAt (c # cs) of Some m \<Rightarrow> Some m | None \<Rightarrow> matchUrl cs)"

text \<open>The loop of \<^verbatim>\<open>findUrlInBlock\<close> over the content items.\<close>

fun findUrlLoop :: "item list \<Rightarrow> string" where
  "findUrlLoop [] = ''''"
| "findUrlLoop (i # rest) =
     (if t i = ''a'' \<and> url i \<noteq> None \<and> url i \<noteq> Some ''''
      then the (url i)
      else (case v i of
              VStr s \<Rightarrow>
                (if includesStr s ''http''
                 then (case matchUrl s of Some m \<Rightarrow> m | None \<Rightarrow> findUrlLoop rest)
                 else findUrlLoop rest)
            | _ \<Rightarrow> findUrlLoop rest))"

definition findUrlInBlock :: "block option \<Rightarrow> string" where
  "findUrlInBlock b =
     (case b of
        None \<Rightarrow> ''''
      | Some blk \<Rightarrow> (case content blk of None \<Rightarrow> '''' | Some items \<Rightarrow> findUrlLoop items))"

subsection \<open>The pattern as the specification words it\<close>

text \<open>
  The strings that \<^verbatim>\<open>https?://[^\s]+\<close> matches as a whole: the scheme with or without
  the \<^verbatim>\<open>s\<close>, then one or more characters that are not white space. The match of the
  pattern in a text is \<open>None\<close> when no part of the text is such a string; otherwise it is
  such a part that starts at the leftmost position where one starts and is the longest
  one starting there.
\<close>

definition isUrlText :: "string \<Rightarrow> bool" where
  "isUrlText m =
     (\<exists>run. run \<noteq> [] \<and> list_all (\<lambda>ch. \<not> isSpace ch) run
        \<and> (m = ''http://'' @ run \<or> m = ''https://'' @ run))"

definition firstMatch :: "string \<Rightarrow> string option \<Rightarrow> bool" where
  "firstMatch s r =
     (case r of
        None \<Rightarrow> \<not> (\<exists>pre m post. s = pre @ m @ post \<and> isUrlText m)
      | Some m \<Rightarrow>
          (\<exists>pre post. s = pre @ m @ post \<and> isUrlText m
             \<and> (\<forall>pre' m' post'. s = pre' @ m' @ post' \<and> isUrlText m'
                    \<longrightarrow> length pre \<le> length pre')
             \<and> (\<forall>m' post'. m @ post = m' @ post' \<and> isUrlText m'
                    \<longrightarrow> length m' \<le> length m)))"

subsection \<open>The locator as the specification words it\<close>

text \<open>
  The URL an item offers: the target of an explicit link, else the URL extracted from its
  text. The locator's answer is the first URL offered, in content order.
\<close>

definition explicitLinkUrl :: "item \<Rightarrow> string option" where
  "explicitLinkUrl i =
     (case url i of
        Some u \<Rightarrow> (if t i = ''a'' \<and> u \<noteq> '''' then Some u else None)
      | None \<Rightarrow> None)"

definition plainTextUrl :: "item \<Rightarrow> string option" where
  "plainTextUrl i = (case v i of VStr s \<Rightarrow> matchUrl s | _ \<Rightarrow> None)"

definition urlOfItem :: "item \<Rightarrow> string option" where
  "urlOfItem i =
     (case explicitLinkUrl i of Some u \<Rightarrow> Some u | None \<Rightarrow> plainTextUrl i)"

definition firstUrl :: "item list \<Rightarrow> string" where
  "firstUrl items = (case List.map_filter urlOfItem items of [] \<Rightarrow> '''' | u # _ \<Rightarrow> u)"

section \<open>Errors\<close>

text \<open>
  What the program throws or a host call rejects with. A \<^verbatim>\<open>try\<close> block is a
  computation of type \<open>error + 'a\<close> (\<open>Inl\<close> the exception); its \<^verbatim>\<open>catch\<close> is the
  case distinction on that result.
\<close>

datatype error = Error string | TypeError string | SyntaxError string

section \<open>Rule Matcher\<close>

text \<open>
  A rule. \<open>urlPattern\<close> is \<open>None\<close> when the rule carries no pattern string, where
  \<^verbatim>\<open>rule.urlPattern.trim()\<close> throws a TypeError.
\<close>

record rule =
  ruleName :: string
  enabled :: bool
  urlPattern :: "string option"
  tagName :: string
  downloadCover :: bool
  script :: "string list"

text \<open>
  The regular-expression engine is the language's, not the program's: \<open>RegExp src flags\<close>
  is \<open>None\<close> when the constructor throws a SyntaxError and otherwise the \<^verbatim>\<open>test\<close>
  function of the new expression. The matcher is written over any such engine.
\<close>

type_synonym regexp = "string \<Rightarrow> bool"

type_synonym regexp_engine = "string \<Rightarrow> string \<Rightarrow> regexp option"

text \<open>\<^verbatim>\<open>s.lastIndexOf(c)\<close>: the last position of \<open>c\<close> in \<open>s\<close>, or -1.\<close>

definition lastIndexOf :: "string \<Rightarrow> char \<Rightarrow> int" where
  "lastIndexOf s c =
     (if c \<in> set s
      then int (length s) - 1 - int (length (takeWhile (\<lambda>x. x \<noteq> c) (rev s)))
      else - 1)"

text \<open>\<^verbatim>\<open>s.substring(a, b)\<close> for \<open>a \<le> b\<close>, and \<^verbatim>\<open>s.substring(a)\<close>.\<close>

definition substring :: "string \<Rightarrow> nat \<Rightarrow> nat \<Rightarrow> string" where
  "substring s a b = take (b - a) (drop a s)"

definition substringFrom :: "string \<Rightarrow> nat \<Rightarrow> string" where
  "substringFrom s a = drop a s"

text \<open>The body of the \<^verbatim>\<open>try\<close> block up to the compiled expression.\<close>

definition compilePattern :: "regexp_engine \<Rightarrow> rule \<Rightarrow> error + regexp" where
  "compilePattern RegExp r =
     (case urlPattern r of
        None \<Rightarrow> Inl (TypeError ''urlPattern'')
      | Some p \<Rightarrow>
          (let pattern = trim p in
           if startsWith pattern ''/'' \<and> lastIndexOf pattern (CHR ''/'') > 0
           then
             (let lastSlashIndex = nat (lastIndexOf pattern (CHR ''/''));
                  regexPattern = substring pattern 1 lastSlashIndex;
                  flags = substringFrom pattern (lastSlashIndex + 1)
              in case RegExp regexPattern flags of
                   None \<Rightarrow> Inl (SyntaxError regexPattern)
                 | Some regex \<Rightarrow> Inr regex)
           else
             (case RegExp pattern ''i'' of
                None \<Rightarrow> Inl (SyntaxError pattern)
              | Some regex \<Rightarrow> Inr regex)))"

text \<open>The callback given to \<^verbatim>\<open>rules.find\<close>: the \<^verbatim>\<open>catch\<close> turns every exception into false.\<close>

definition ruleTest :: "regexp_engine \<Rightarrow> string \<Rightarrow> rule \<Rightarrow> error + bool" where
  "ruleTest RegExp u r =
     (if \<not> enabled r then Inr False
      else (case compilePattern RegExp r of
              Inl e \<Rightarrow> Inr False
            | Inr regex \<Rightarrow> Inr (regex u)))"

text \<open>\<^verbatim>\<open>Array.prototype.find\<close> over a callback that may throw.\<close>

fun findFirst :: "('a \<Rightarrow> error + bool) \<Rightarrow> 'a list \<Rightarrow> error + 'a option" where
  "findFirst cb [] = Inr None"
| "findFirst cb (x # xs) =
     (case cb x of
        Inl e \<Rightarrow> Inl e
      | Inr b \<Rightarrow> (if b then Inr (Some x) else findFirst cb xs))"

definition matchRule :: "regexp_engine \<Rightarrow> string \<Rightarrow> rule list \<Rightarrow> error + rule option" where
  "matchRule RegExp u rules = findFirst (ruleTest RegExp u) rules"

text \<open>A rule's pattern compiles and the compiled expression matches the URL.\<close>

definition patternMatches :: "regexp_engine \<Rightarrow> string \<Rightarrow> rule \<Rightarrow> bool" where
  "patternMatches RegExp u r =
     (case compilePattern RegExp r of Inl e \<Rightarrow> False | Inr regex \<Rightarrow> regex u)"

subsection \<open>A sample of the engine\<close>

text \<open>
  The engine on the sources used below to instantiate the matcher: a flags string is
  valid when it is made of distinct letters among \<^verbatim>\<open>dgimsuvy\<close>, not both \<^verbatim>\<open>u\<close> and
  \<^verbatim>\<open>v\<close>; the source \<^verbatim>\<open>.*\<close> matches every string; a source of ASCII characters none of
  which is a syntax character matches the strings that contain it (that start with it
  under the sticky flag), letters compared without case under the flag \<^verbatim>\<open>i\<close>. Every
  other source is outside the sample, which answers \<open>None\<close> there.
\<close>

definition validFlags :: "string \<Rightarrow> bool" where
  "validFlags fl =
     (list_all (\<lambda>c. c \<in> set ''dgimsuvy'') fl \<and> distinct fl
      \<and> \<not> (CHR ''u'' \<in> set fl \<and> CHR ''v'' \<in> set fl))"

definition isLiteralChar :: "char \<Rightarrow> bool" where
  "isLiteralChar c =
     ((of_char c :: nat) < 128 \<and> c \<noteq> CHR 0x5C \<and> c \<notin> set ''^$.*+?()[]{}|'')"

definition canonicalize :: "char \<Rightarrow> char" where
  "canonicalize ch =
     (case map_of (zip ''abcdefghijklmnopqrstuvwxyz'' ''ABCDEFGHIJKLMNOPQRSTUVWXYZ'') ch of
        Some u \<Rightarrow> u
      | None \<Rightarrow> ch)"

definition RegExp_sample :: regexp_engine where
  "RegExp_sample src fl =
     (if \<not> validFlags fl then None
      else if src = ''.*'' then Some (\<lambda>u. True)
      else if list_all isLiteralChar src
      then Some (\<lambda>u.
             (let fold = (if CHR ''i'' \<in> set fl then map canonicalize else id)
              in if CHR ''y'' \<in> set fl then startsWith (fold u) (fold src)
                 else includesStr (fold u) (fold src)))
      else None)"

section \<open>Properties\<close>

text \<open>
  The closed enumeration \<^verbatim>\<open>PropType\<close>, a choice of a TextChoices schema (\<open>n\<close> its name,
  \<open>c\<close> its colour), the type arguments of a property (the fields other than \<^verbatim>\<open>subType\<close>
  and \<^verbatim>\<open>choices\<close> are kept as a list of key and value), a property definition of a tag
  schema, and a property: a definition with a value. An absent field is \<open>None\<close>.
\<close>

datatype PropType = JSON | Text | BlockRefs | Number | Boolean | DateTime | TextChoices

record choice =
  n :: string
  c :: string

record typeArgs =
  subType :: "string option"
  choices :: "choice list option"
  other :: "(string \<times> string) list"

record propDef =
  name :: string
  type :: PropType
  typeArgs :: "typeArgs option"

record property = propDef +
  "value" :: jsval

text \<open>\<^verbatim>\<open>item.typeArgs?.subType\<close> and \<^verbatim>\<open>prop.typeArgs?.choices || []\<close>.\<close>

definition subTypeOf :: "'a propDef_scheme \<Rightarrow> string option" where
  "subTypeOf p = (case typeArgs p of None \<Rightarrow> None | Some ta \<Rightarrow> subType ta)"

definition choicesOf :: "'a propDef_scheme \<Rightarrow> choice list" where
  "choicesOf p =
     (case typeArgs p of
        None \<Rightarrow> []
      | Some ta \<Rightarrow> (case choices ta of None \<Rightarrow> [] | Some cs \<Rightarrow> cs))"

section \<open>Property Normalizer\<close>

text \<open>\<^verbatim>\<open>toLowerCase\<close> on the code units below 256: the letters A to Z map to a to z.\<close>

definition lowerChar :: "char \<Rightarrow> char" where
  "lowerChar ch =
     (case map_of (zip ''ABCDEFGHIJKLMNOPQRSTUVWXYZ'' ''abcdefghijklmnopqrstuvwxyz'') ch of
        Some l \<Rightarrow> l
      | None \<Rightarrow> ch)"

definition toLowerCase :: "string \<Rightarrow> string" where
  "toLowerCase s = map lowerChar s"

text \<open>\<^verbatim>\<open>s.split(d)\<close> on a one-character separator: the empty string gives one empty piece.\<close>

fun split :: "char \<Rightarrow> string \<Rightarrow> string list" where
  "split d [] = [[]]"
| "split d (x # xs) =
     (if x = d then [] # split d xs
      else (case split d xs of w # ws \<Rightarrow> (x # w) # ws | [] \<Rightarrow> [[x]]))"

text \<open>
  The callback of \<^verbatim>\<open>processedProperties.map\<close> in \<^verbatim>\<open>applyMetadataToBlock\<close>. The parsers of
  the language are parameters: \<open>parseFloat\<close>, and \<open>parseDate s\<close>, the time value of
  \<^verbatim>\<open>new Date(s)\<close>, \<open>None\<close> when that is NaN.
\<close>

definition formatProperty ::
  "(string \<Rightarrow> jsnum) \<Rightarrow> (string \<Rightarrow> int option) \<Rightarrow> property \<Rightarrow> property" where
  "formatProperty parseFloat parseDate item =
     (let value1 =
            (case value item of
               VStr s \<Rightarrow>
                 (if type item = DateTime
                  then (case parseDate s of Some date \<Rightarrow> VDate date | None \<Rightarrow> VStr s)
                  else if type item = Number then VNum (parseFloat s)
                  else if type item = Boolean
                  then VBool (toLowerCase s \<in> set [''true'', ''yes'', ''1'', ''ok''])
                  else VStr s)
             | other_value \<Rightarrow> other_value)
      in if type item = TextChoices
         then
           (let choicesValues =
                  (case value1 of
                     VArr xs \<Rightarrow> xs
                   | VStr s \<Rightarrow> filter (\<lambda>w. w \<noteq> []) (map trim (split (CHR '' '') s))
                   | _ \<Rightarrow> [])
            in \<lparr>name = name item, type = type item,
                typeArgs = Some \<lparr>subType = Some ''multi'',
                                 choices = Some (map (\<lambda>w. \<lparr>n = w, c = ''''\<rparr>) choicesValues),
                                 other = []\<rparr>,
                value = VArr choicesValues\<rparr>)
         else
           (let typeArgs0 =
                  (case typeArgs item of
                     Some ta \<Rightarrow> ta
                   | None \<Rightarrow> \<lparr>subType = None, choices = None, other = []\<rparr>);
                typeArgs1 =
                  (if type item = DateTime \<and> (subType typeArgs0 = None \<or> subType typeArgs0 = Some '''')
                   then typeArgs0\<lparr>subType := Some ''datetime''\<rparr> else typeArgs0)
            in \<lparr>name = name item, type = type item,
                typeArgs =
                  (if subType typeArgs1 \<noteq> None \<or> choices typeArgs1 \<noteq> None \<or> other typeArgs1 \<noteq> []
                   then Some typeArgs1 else None),
                value = value1\<rparr>))"

section \<open>The host\<close>

text \<open>
  What the program calls and does not define: the constructors and functions of the
  language (\<^verbatim>\<open>URL\<close>, \<^verbatim>\<open>atob\<close>, \<^verbatim>\<open>fetch\<close>, the document parser and its queries, the
  evaluation of a script text) and the backend of the note application. An awaited call
  takes the state \<open>'h\<close> of the world and returns its settlement, \<open>Inl\<close> a rejection, with
  the new state; a call that only computes returns \<open>Inl\<close> when it throws.
\<close>

record response =
  ok :: bool
  status :: nat
  statusText :: string
  contentType :: "string option"
  body :: "error + string"

datatype fetchMode = Cors | NoCors

text \<open>What a script call returns: an array of properties, or a value that is no array.\<close>

datatype scriptValue =
    RetArray "property list"
  | RetUndefined
  | RetNull
  | RetBool bool
  | RetNum jsnum
  | RetStr string
  | RetObject

record 'h host =
  newURL :: "string \<Rightarrow> error + string"
  fetch :: "string \<Rightarrow> fetchMode \<Rightarrow> 'h \<Rightarrow> (error + response) \<times> 'h"
  atob :: "string \<Rightarrow> error + string"
  upload_asset_url :: "string \<Rightarrow> 'h \<Rightarrow> (error + jsval) \<times> 'h"
  upload_asset_binary :: "string \<Rightarrow> string \<Rightarrow> 'h \<Rightarrow> (error + jsval) \<times> 'h"
  getAttribute :: "string \<Rightarrow> string \<Rightarrow> string \<Rightarrow> string option"
  textContent :: "string \<Rightarrow> string \<Rightarrow> string option"
  callScript :: "string \<Rightarrow> string \<Rightarrow> string \<Rightarrow> property list \<Rightarrow> error + scriptValue"

section \<open>Asset Resolver\<close>

text \<open>
  \<^verbatim>\<open>s.match(/^data:(image\/[^;]+);base64,(.+)$/)\<close>: the two groups, when the string is
  \<^verbatim>\<open>data:image/\<close>, a non-empty run without \<^verbatim>\<open>;\<close>, then \<^verbatim>\<open>;base64,\<close> and a non-empty
  rest without line terminator. The first group cannot contain \<^verbatim>\<open>;\<close>, so it ends at the
  first one.
\<close>

definition isLineTerminator :: "char \<Rightarrow> bool" where
  "isLineTerminator ch = (of_char ch \<in> {10, 13 :: nat})"

definition matchDataUri :: "string \<Rightarrow> (string \<times> string) option" where
  "matchDataUri s =
     (if startsWith s ''data:image/''
      then
        (let rest = drop 11 s;
             sub = takeWhile (\<lambda>ch. ch \<noteq> CHR '';'') rest;
             after = drop (length sub) rest;
             payload = drop 8 after
         in if sub \<noteq> [] \<and> startsWith after '';base64,'' \<and> payload \<noteq> []
               \<and> list_all (\<lambda>ch. \<not> isLineTerminator ch) payload
            then Some (''image/'' @ sub, payload)
            else None)
      else None)"

text \<open>
  The branch for an inline image. Its inner \<^verbatim>\<open>try\<close> holds the decoding and the upload;
  the inner \<^verbatim>\<open>catch\<close> only logs. The result is the new content of the variable
  \<^verbatim>\<open>value\<close>, which starts as the item's value \<open>VStr s\<close>.
\<close>

definition resolveInlineImage ::
  "('h, 'x) host_scheme \<Rightarrow> string \<Rightarrow> 'h \<Rightarrow> (error + jsval) \<times> 'h" where
  "resolveInlineImage host s h =
     (case matchDataUri s of
        None \<Rightarrow> (Inr (VStr s), h)
      | Some (mime, base64Data) \<Rightarrow>
          (case atob host base64Data of
             Inl e \<Rightarrow> (Inr (VStr s), h)
           | Inr binaryData \<Rightarrow>
               (case upload_asset_binary host mime binaryData h of
                  (Inl e, h1) \<Rightarrow> (Inr (VStr s), h1)
                | (Inr uploadedUrl, h1) \<Rightarrow>
                    (if truthy uploadedUrl then (Inr uploadedUrl, h1)
                     else (Inr (VStr s), h1)))))"

text \<open>
  The branch for a remote image. The upload by reference sits in an inner \<^verbatim>\<open>try\<close>; a
  rejection, or a result that is not truthy (then the code throws itself), leads to the
  inner \<^verbatim>\<open>catch\<close>, which fetches the bytes and uploads them. What that handler throws
  leaves the branch as \<open>Inl\<close>.
\<close>

definition fetchAndUpload ::
  "('h, 'x) host_scheme \<Rightarrow> string \<Rightarrow> 'h \<Rightarrow> (error + jsval) \<times> 'h" where
  "fetchAndUpload host s h =
     (case fetch host s NoCors h of
        (Inl e, h1) \<Rightarrow> (Inl e, h1)
      | (Inr resp, h1) \<Rightarrow>
          (if ok resp
           then
             (case body resp of
                Inl e \<Rightarrow> (Inl e, h1)
              | Inr blob \<Rightarrow>
                  (let mime =
                         (case contentType resp of
                            None \<Rightarrow> ''image/png''
                          | Some ct \<Rightarrow> (if ct = [] then ''image/png'' else ct))
                   in case upload_asset_binary host mime blob h1 of
                        (Inl e, h2) \<Rightarrow> (Inl e, h2)
                      | (Inr uploadedUrl, h2) \<Rightarrow>
                          (if truthy uploadedUrl then (Inr uploadedUrl, h2)
                           else (Inr (VStr s), h2))))
           else (Inr (VStr s), h1)))"

definition resolveRemoteImage ::
  "('h, 'x) host_scheme \<Rightarrow> string \<Rightarrow> 'h \<Rightarrow> (error + jsval) \<times> 'h" where
  "resolveRemoteImage host s h =
     (case upload_asset_url host s h of
        (Inl e, h1) \<Rightarrow> fetchAndUpload host s h1
      | (Inr uploadedUrl, h1) \<Rightarrow>
          (if truthy uploadedUrl then (Inr uploadedUrl, h1)
           else fetchAndUpload host s h1))"

text \<open>The condition under which an item enters the outer \<^verbatim>\<open>try\<close>.\<close>

definition isCoverToResolve :: "bool \<Rightarrow> property \<Rightarrow> bool" where
  "isCoverToResolve wanted item =
     (wanted \<and> subTypeOf item = Some ''image''
      \<and> (case value item of
            VStr s \<Rightarrow> startsWith s ''http'' \<or> startsWith s ''data:''
          | _ \<Rightarrow> False))"

text \<open>
  One turn of the loop of \<^verbatim>\<open>processProperties\<close>: the outer \<^verbatim>\<open>try\<close>, whose \<^verbatim>\<open>catch\<close>
  logs and leaves \<^verbatim>\<open>value\<close> as it is (nothing is assigned before a throw), then the
  object pushed. The items of the metadata list are property objects.
\<close>

definition processItem ::
  "('h, 'x) host_scheme \<Rightarrow> bool \<Rightarrow> property \<Rightarrow> 'h \<Rightarrow> (error + property) \<times> 'h" where
  "processItem host wanted item h =
     (let (value1, h1) =
            (if isCoverToResolve wanted item
             then
               (case value item of
                  VStr s \<Rightarrow>
                    (case (if startsWith s ''data:'' then resolveInlineImage host s h
                           else resolveRemoteImage host s h) of
                       (Inl e, h') \<Rightarrow> (value item, h')
                     | (Inr new_value, h') \<Rightarrow> (new_value, h'))
                | _ \<Rightarrow> (value item, h))
             else (value item, h))
      in (Inr \<lparr>name = name item, type = type item, typeArgs = typeArgs item, value = value1\<rparr>,
          h1))"

fun processLoop ::
  "('h, 'x) host_scheme \<Rightarrow> bool \<Rightarrow> property list \<Rightarrow> property list \<Rightarrow> 'h
     \<Rightarrow> (error + property list) \<times> 'h" where
  "processLoop host wanted processedProperties [] h = (Inr processedProperties, h)"
| "processLoop host wanted processedProperties (item # rest) h =
     (case processItem host wanted item h of
        (Inl e, h1) \<Rightarrow> (Inl e, h1)
      | (Inr p, h1) \<Rightarrow> processLoop host wanted (processedProperties @ [p]) rest h1)"

definition processProperties ::
  "('h, 'x) host_scheme \<Rightarrow> property list \<Rightarrow> bool \<Rightarrow> 'h \<Rightarrow> (error + property list) \<times> 'h" where
  "processProperties host metadata wanted h = processLoop host wanted [] metadata h"

subsection \<open>Resolution as the specification words it\<close>

text \<open>
  The content type sent with fetched bytes: the response's, \<^verbatim>\<open>image/png\<close> when absent. A
  settlement counts as failed when it is a rejection or a result that is not truthy.
\<close>

definition mimeOf :: "response \<Rightarrow> string" where
  "mimeOf resp =
     (case contentType resp of
        None \<Rightarrow> ''image/png''
      | Some ct \<Rightarrow> (if ct = [] then ''image/png'' else ct))"


text \<open>
  When a value \<open>w\<close> is a durable reference for the image \<open>s\<close>. For an inline image: the
  data URI matches the pattern, its payload decodes, and the backend resolved the upload
  of the decoded bytes under the URI's content type with \<open>w\<close>. For a remote image: the
  backend resolved the upload by reference of \<open>s\<close> with \<open>w\<close>, or the fetch of \<open>s\<close> gave
  a good response whose bytes the backend resolved the upload of with \<open>w\<close>. In each case
  \<open>w\<close> is truthy.
\<close>

definition inlineUpload :: "('h, 'x) host_scheme \<Rightarrow> string \<Rightarrow> jsval \<Rightarrow> bool" where
  "inlineUpload host s w =
     (\<exists>mime b64 bytes h h'. matchDataUri s = Some (mime, b64) \<and> atob host b64 = Inr bytes
        \<and> upload_asset_binary host mime bytes h = (Inr w, h'))"

definition remoteUpload :: "('h, 'x) host_scheme \<Rightarrow> string \<Rightarrow> jsval \<Rightarrow> bool" where
  "remoteUpload host s w =
     ((\<exists>h h'. upload_asset_url host s h = (Inr w, h'))
      \<or> (\<exists>h h1 resp blob h'. fetch host s NoCors h = (Inr resp, h1) \<and> ok resp
            \<and> body resp = Inr blob
            \<and> upload_asset_binary host (mimeOf resp) blob h1 = (Inr w, h')))"

definition uploadedFor :: "('h, 'x) host_scheme \<Rightarrow> string \<Rightarrow> jsval \<Rightarrow> bool" where
  "uploadedFor host s w =
     (truthy w
      \<and> (if startsWith s ''data:'' then inlineUpload host s w else remoteUpload host s w))"

text \<open>What a branch of the resolver can leave in \<^verbatim>\<open>value\<close>, or that it threw.\<close>

definition settled :: "(jsval \<Rightarrow> bool) \<Rightarrow> string \<Rightarrow> error + jsval \<Rightarrow> bool" where
  "settled uploaded s r =
     (case r of
        Inl e \<Rightarrow> True
      | Inr w \<Rightarrow> w = VStr s \<or> (truthy w \<and> uploaded w))"

text \<open>What one turn of the loop pushes.\<close>

definition resolvedFrom :: "('h, 'x) host_scheme \<Rightarrow> bool \<Rightarrow> property \<Rightarrow> property \<Rightarrow> bool" where
  "resolvedFrom host wanted item p =
     (name p = name item \<and> type p = type item \<and> typeArgs p = typeArgs item
      \<and> (value p = value item
          \<or> (isCoverToResolve wanted item
              \<and> (\<exists>s. value item = VStr s \<and> uploadedFor host s (value p)))))"

section \<open>Document Fetcher and Extraction Sandbox\<close>

definition isValidUrl :: "('h, 'x) host_scheme \<Rightarrow> string \<Rightarrow> bool" where
  "isValidUrl host u = (case newURL host u of Inl e \<Rightarrow> False | Inr origin \<Rightarrow> True)"

text \<open>\<^verbatim>\<open>url.split('?')[0].split('#')[0]\<close>.\<close>

definition cleanUrl :: "string \<Rightarrow> string" where
  "cleanUrl u = takeWhile (\<lambda>ch. ch \<noteq> CHR ''#'') (takeWhile (\<lambda>ch. ch \<noteq> CHR ''?'') u)"

text \<open>A chain of \<^verbatim>\<open>||\<close> over strings that may be missing, ending in the empty string.\<close>

fun firstTruthy :: "string option list \<Rightarrow> string" where
  "firstTruthy [] = ''''"
| "firstTruthy (None # rest) = firstTruthy rest"
| "firstTruthy (Some s # rest) = (if s = [] then firstTruthy rest else s)"

text \<open>
  The three generic properties. Their names are the UTF-8 bytes of the source's names
  (link, title, cover).
\<close>

definition name_link :: string where
  "name_link = [CHR 0xE9, CHR 0x93, CHR 0xBE, CHR 0xE6, CHR 0x8E, CHR 0xA5]"

definition name_title :: string where
  "name_title = [CHR 0xE6, CHR 0xA0, CHR 0x87, CHR 0xE9, CHR 0xA2, CHR 0x98]"

definition name_cover :: string where
  "name_cover = [CHR 0xE5, CHR 0xB0, CHR 0x81, CHR 0xE9, CHR 0x9D, CHR 0xA2]"

definition getGenericMetadata :: "('h, 'x) host_scheme \<Rightarrow> string \<Rightarrow> string \<Rightarrow> property list" where
  "getGenericMetadata host doc u =
     (let title =
            firstTruthy
              [map_option trim (getAttribute host doc ''meta[property='og:title']'' ''content''),
               map_option trim (textContent host doc ''title'')];
          image =
            firstTruthy
              [getAttribute host doc ''meta[property='og:image']'' ''content'',
               getAttribute host doc ''meta[name='og:image']'' ''content'',
               getAttribute host doc ''link[rel='icon']'' ''href'']
      in [\<lparr>name = name_link, type = Text,
            typeArgs = Some \<lparr>subType = Some ''link'', choices = None, other = []\<rparr>,
            value = VStr u\<rparr>,
          \<lparr>name = name_title, type = Text, typeArgs = None, value = VStr title\<rparr>,
          \<lparr>name = name_cover, type = Text,
            typeArgs = Some \<lparr>subType = Some ''image'', choices = None, other = []\<rparr>,
            value = VStr image\<rparr>])"

text \<open>A number in a template literal, and \<^verbatim>\<open>lines.join("\n")\<close>.\<close>

fun showNat :: "nat \<Rightarrow> string" where
  "showNat k =
     (if k < 10 then [char_of (48 + k)]
      else showNat (k div 10) @ [char_of (48 + k mod 10)])"

fun joinLines :: "string list \<Rightarrow> string" where
  "joinLines [] = ''''"
| "joinLines [l] = l"
| "joinLines (l # rest) = l @ [CHR 0x0A] @ joinLines rest"

text \<open>
  \<^verbatim>\<open>extractMetadataStatic\<close>. Its \<^verbatim>\<open>catch\<close> rethrows, so every exception of the body is
  the function's.
\<close>

definition extractMetadataStatic ::
  "('h, 'x) host_scheme \<Rightarrow> string \<Rightarrow> string list \<Rightarrow> 'h \<Rightarrow> (error + property list) \<times> 'h" where
  "extractMetadataStatic host u scriptLines h =
     (if u = [] \<or> \<not> isValidUrl host u then (Inl (Error ''Invalid URL''), h)
      else
        (case fetch host u Cors h of
           (Inl e, h1) \<Rightarrow> (Inl e, h1)
         | (Inr resp, h1) \<Rightarrow>
             (if \<not> ok resp
              then (Inl (Error (''HTTP error! status: '' @ showNat (status resp))), h1)
              else
                (case body resp of
                   Inl e \<Rightarrow> (Inl e, h1)
                 | Inr html \<Rightarrow>
                     (let cleanedUrl = cleanUrl u;
                          baseMeta = getGenericMetadata host html cleanedUrl;
                          script_text = joinLines scriptLines
                      in case callScript host script_text html cleanedUrl baseMeta of
                           Inl e \<Rightarrow> (Inl e, h1)
                         | Inr result \<Rightarrow>
                             (case result of
                                RetArray ps \<Rightarrow> (Inr ps, h1)
                              | _ \<Rightarrow> (Inr [], h1)))))))"

text \<open>The result of \<^verbatim>\<open>handleBlockExtraction\<close>.\<close>

record extraction =
  ex_url :: string
  ex_metadata :: "property list"
  ex_rule :: rule

definition handleBlockExtraction ::
  "('h, 'x) host_scheme \<Rightarrow> regexp_engine \<Rightarrow> block option \<Rightarrow> rule list \<Rightarrow> 'h
     \<Rightarrow> (error + extraction) \<times> 'h" where
  "handleBlockExtraction host RegExp b rules h =
     (let u = findUrlInBlock b in
      if u = [] then (Inl (Error ''No URL found in block''), h)
      else
        (case matchRule RegExp u rules of
           Inl e \<Rightarrow> (Inl e, h)
         | Inr None \<Rightarrow> (Inl (Error ''No matching rule found for this URL''), h)
         | Inr (Some matchedRule) \<Rightarrow>
             (case extractMetadataStatic host u (script matchedRule) h of
                (Inl e, h1) \<Rightarrow> (Inl e, h1)
              | (Inr metadata, h1) \<Rightarrow>
                  (Inr \<lparr>ex_url = u, ex_metadata = metadata, ex_rule = matchedRule\<rparr>, h1))))"

section \<open>Schema Reconciler\<close>

record tagBlock =
  properties :: "propDef list option"

text \<open>
  The loop of \<^verbatim>\<open>syncTagSchema\<close> pushes into the choices array of an existing property
  and stages an object that holds that same array: what is sent in the end is the content
  the array has when the loop is over. A staged merge therefore records which array it
  holds: the array of the existing property found under a name, or, when that property
  had none, a new array of its own. The other type arguments of a merge are those the
  spread copied.
\<close>

datatype choicesRef = OwnArray "choice list" | ArrayOf string

datatype staged =
    Addition string PropType "typeArgs option"
  | Merge string PropType typeArgs choicesRef

definition findByName :: "string \<Rightarrow> propDef list \<Rightarrow> propDef option" where
  "findByName x ps = List.find (\<lambda>p. name p = x) ps"

definition hasArray :: "propDef \<Rightarrow> bool" where
  "hasArray p = (case typeArgs p of None \<Rightarrow> False | Some ta \<Rightarrow> choices ta \<noteq> None)"

text \<open>\<^verbatim>\<open>...existingProp.typeArgs\<close>: the fields of the type arguments, none when absent.\<close>

definition spreadArgs :: "propDef \<Rightarrow> typeArgs" where
  "spreadArgs p =
     (case typeArgs p of
        None \<Rightarrow> \<lparr>subType = None, choices = None, other = []\<rparr>
      | Some ta \<Rightarrow> ta)"

text \<open>
  The inner loop: a new choice is pushed when its name is not in the set of names built
  before the loop.
\<close>

fun mergeLoop :: "string list \<Rightarrow> choice list \<Rightarrow> bool \<Rightarrow> choice list \<Rightarrow> choice list \<times> bool" where
  "mergeLoop existingNames existingChoices hasNew [] = (existingChoices, hasNew)"
| "mergeLoop existingNames existingChoices hasNew (nc # rest) =
     (if n nc \<notin> set existingNames
      then mergeLoop existingNames (existingChoices @ [nc]) True rest
      else mergeLoop existingNames existingChoices hasNew rest)"

text \<open>
  The effect of the pushes on the array of existing properties: the first property of the
  name, the one \<^verbatim>\<open>find\<close> returned, has its own array replaced by the extended one.
\<close>

fun storeChoices :: "string \<Rightarrow> choice list \<Rightarrow> propDef list \<Rightarrow> propDef list" where
  "storeChoices x merged [] = []"
| "storeChoices x merged (p # ps) =
     (if name p = x
      then (if hasArray p
            then p\<lparr>typeArgs := Some ((spreadArgs p)\<lparr>choices := Some merged\<rparr>)\<rparr> # ps
            else p # ps)
      else p # storeChoices x merged ps)"

fun syncLoop ::
  "propDef list \<Rightarrow> staged list \<Rightarrow> 'a propDef_scheme list \<Rightarrow> propDef list \<times> staged list" where
  "syncLoop existingProps propsToUpdate [] = (existingProps, propsToUpdate)"
| "syncLoop existingProps propsToUpdate (prop # rest) =
     (case findByName (name prop) existingProps of
        None \<Rightarrow>
          syncLoop existingProps
            (propsToUpdate @ [Addition (name prop) (type prop) (typeArgs prop)]) rest
      | Some existingProp \<Rightarrow>
          (if type prop = TextChoices \<and> type existingProp = TextChoices
           then
             (case mergeLoop (map n (choicesOf existingProp)) (choicesOf existingProp) False
                     (choicesOf prop) of
                (merged, hasNew) \<Rightarrow>
                  (if hasNew
                   then syncLoop (storeChoices (name prop) merged existingProps)
                          (propsToUpdate @
                             [Merge (name prop) (type prop) (spreadArgs existingProp)
                                (if hasArray existingProp then ArrayOf (name prop)
                                 else OwnArray merged)])
                          rest
                   else syncLoop (storeChoices (name prop) merged existingProps)
                          propsToUpdate rest))
           else syncLoop existingProps propsToUpdate rest))"

text \<open>\<^verbatim>\<open>JSON.parse(JSON.stringify(propsToUpdate))\<close>, one staged object at a time.\<close>

definition toJSON :: "propDef list \<Rightarrow> staged \<Rightarrow> propDef" where
  "toJSON existingProps st =
     (case st of
        Addition x ty ta \<Rightarrow> \<lparr>name = x, type = ty, typeArgs = ta\<rparr>
      | Merge x ty args ref \<Rightarrow>
          \<lparr>name = x, type = ty,
           typeArgs = Some (args
             \<lparr>choices := Some (case ref of
                                OwnArray cs \<Rightarrow> cs
                              | ArrayOf y \<Rightarrow>
                                  (case findByName y existingProps of
                                     None \<Rightarrow> []
                                   | Some p \<Rightarrow> choicesOf p)),
              subType := Some ''multi''\<rparr>)\<rparr>)"

text \<open>
  \<^verbatim>\<open>syncTagSchema\<close>, given the settlement of \<^verbatim>\<open>get-block\<close>. The result is the list sent
  with the command \<^verbatim>\<open>core.editor.setProperties\<close>, or \<open>None\<close> when no command is issued:
  the block is missing, nothing is staged, or the call was rejected (the \<^verbatim>\<open>catch\<close> logs).
\<close>

definition syncTagSchema ::
  "error + tagBlock option \<Rightarrow> 'a propDef_scheme list \<Rightarrow> propDef list option" where
  "syncTagSchema got props =
     (case got of
        Inl e \<Rightarrow> None
      | Inr None \<Rightarrow> None
      | Inr (Some blk) \<Rightarrow>
          (let existingProps = (case properties blk of None \<Rightarrow> [] | Some ps \<Rightarrow> ps)
           in case syncLoop existingProps [] props of
                (finalProps, propsToUpdate) \<Rightarrow>
                  (if length propsToUpdate > 0
                   then Some (map (toJSON finalProps) propsToUpdate)
                   else None)))"

subsection \<open>The host's side of a reconciliation\<close>

text \<open>
  Modelled from the spec: the host command \<^verbatim>\<open>core.editor.setProperties\<close> on a tag block
  (the collaborator \<^verbatim>\<open>setBlockProperties\<close>), which is not part of the program. A staged
  update, whose name the schema has, replaces the definition of that name; a staged
  addition, whose name the schema lacks, is added at the end. The reconciler stages an
  addition only for a name the schema lacks and, for a property set, at most one property
  per name; the command is applied to such staged lists only.
\<close>

fun upsert :: "propDef \<Rightarrow> propDef list \<Rightarrow> propDef list" where
  "upsert d [] = [d]"
| "upsert d (p # ps) = (if name p = name d then d # ps else p # upsert d ps)"

definition setProperties :: "propDef list \<Rightarrow> propDef list \<Rightarrow> propDef list" where
  "setProperties schema updates = foldl (\<lambda>s d. upsert d s) schema updates"

text \<open>One pass: read the schema, reconcile, and apply what was staged, if anything.\<close>

definition reconcile :: "propDef list \<Rightarrow> 'a propDef_scheme list \<Rightarrow> propDef list" where
  "reconcile schema props =
     (case syncTagSchema (Inr (Some \<lparr>properties = Some schema\<rparr>)) props of
        None \<Rightarrow> schema
      | Some updates \<Rightarrow> setProperties schema updates)"

subsection \<open>The reconciler as the specification words it\<close>

text \<open>
  What one new property stages against a schema: an addition when no existing property
  has its name; when both are TextChoices, the existing choices followed by the new
  choices whose name is not among the existing names, if there is any such choice;
  nothing otherwise.
\<close>

definition newChoicesFor :: "propDef \<Rightarrow> 'a propDef_scheme \<Rightarrow> choice list" where
  "newChoicesFor existing prop =
     filter (\<lambda>nc. n nc \<notin> set (map n (choicesOf existing))) (choicesOf prop)"

definition stagedFor :: "propDef list \<Rightarrow> 'a propDef_scheme \<Rightarrow> propDef option" where
  "stagedFor schema prop =
     (case findByName (name prop) schema of
        None \<Rightarrow> Some \<lparr>name = name prop, type = type prop, typeArgs = typeArgs prop\<rparr>
      | Some existing \<Rightarrow>
          (if type prop = TextChoices \<and> type existing = TextChoices
              \<and> newChoicesFor existing prop \<noteq> []
           then Some \<lparr>name = name prop, type = type prop,
                      typeArgs = Some ((spreadArgs existing)
                        \<lparr>choices := Some (choicesOf existing @ newChoicesFor existing prop),
                         subType := Some ''multi''\<rparr>)\<rparr>
           else None))"

text \<open>The name under which a staged merge holds the array of an existing property.\<close>

fun heldName :: "staged \<Rightarrow> string option" where
  "heldName (Addition x ty ta) = None"
| "heldName (Merge x ty args (OwnArray cs)) = None"
| "heldName (Merge x ty args (ArrayOf y)) = Some y"

section \<open>Sample inputs\<close>


definition rule_generic :: rule where
  "rule_generic =
     \<lparr>ruleName = ''Generic'', enabled = True, urlPattern = Some ''.*'',
      tagName = ''Bookmark'', downloadCover = False, script = [''return baseMeta;'']\<rparr>"


definition rule_specific :: rule where
  "rule_specific =
     \<lparr>ruleName = ''Douban Book'', enabled = True, urlPattern = Some ''douban'',
      tagName = ''Book'', downloadCover = True, script = []\<rparr>"

definition prop_genre :: property where
  "prop_genre =
     \<lparr>name = ''genre'', type = TextChoices,
      typeArgs = Some \<lparr>subType = None, choices = Some [\<lparr>n = ''poetry'', c = ''red''\<rparr>], other = []\<rparr>,
      value = VStr ''fiction  nonfiction''\<rparr>"

definition prop_read :: property where
  "prop_read = \<lparr>name = ''read'', type = Boolean, typeArgs = None, value = VStr ''Yes''\<rparr>"

definition item_note :: item where
  "item_note = \<lparr>t = ''t'', url = None, v = VStr ''a book to read''\<rparr>"

definition item_link :: item where
  "item_link =
     \<lparr>t = ''a'', url = Some ''https://book.douban.com/subject/1234567/'',
      v = VStr ''see http://example.org/other''\<rparr>"

definition item_text :: item where
  "item_text = \<lparr>t = ''t'', url = None, v = VStr ''or https://example.org/later here''\<rparr>"


definition host_page :: "nat host" where
  "host_page =
     \<lparr>newURL = (\<lambda>u. if startsWith u ''http'' then Inr u else Inl (TypeError ''Invalid URL'')),
      fetch = (\<lambda>u m h.
        (Inr \<lparr>ok = True, status = 200, statusText = ''OK'', contentType = Some ''text/html'',
              body = Inr ''<title>A page</title>''\<rparr>, Suc h)),
      atob = (\<lambda>s. Inr s),
      upload_asset_url = (\<lambda>u h. (Inr (VStr ''assets/cover.png''), Suc h)),
      upload_asset_binary = (\<lambda>m b h. (Inr (VStr ''assets/cover.png''), Suc h)),
      getAttribute = (\<lambda>d s a. None),
      textContent = (\<lambda>d s. Some '' A page ''),
      callScript = (\<lambda>s d u b. Inr (RetStr ''done''))\<rparr>"


definition prop_cover_remote :: property where
  "prop_cover_remote =
     \<lparr>name = ''cover'', type = Text,
      typeArgs = Some \<lparr>subType = Some ''image'', choices = None, other = []\<rparr>,
      value = VStr ''https://example.org/cover.jpg''\<rparr>"

definition schema_genre :: "propDef list" where
  "schema_genre =
     [\<lparr>name = ''genre'', type = TextChoices,
       typeArgs = Some \<lparr>subType = Some ''multi'',
                        choices = Some [\<lparr>n = ''fiction'', c = ''blue''\<rparr>],
                        other = [(''sortable'', ''true'')]\<rparr>\<rparr>]"

definition prop_genres :: property where
  "prop_genres =
     \<lparr>name = ''genre'', type = TextChoices, typeArgs = None,
      value = VStr ''fiction nonfiction''\<rparr>"

definition props_book :: "property list" where
  "props_book =
     [\<lparr>name = ''genre'', type = TextChoices,
       typeArgs = Some \<lparr>subType = Some ''multi'',
                        choices = Some [\<lparr>n = ''fiction'', c = ''''\<rparr>, \<lparr>n = ''nonfiction'', c = ''''\<rparr>],
                        other = []\<rparr>,
       value = VArr [''fiction'', ''nonfiction'']\<rparr>,
      \<lparr>name = ''title'', type = Text, typeArgs = None, value = VStr ''A book''\<rparr>]"

section \<open>Properties of the URL Locator\<close>

declare findUrlLoop.simps(2) [simp del]

lemma startsWith_shorter:
  assumes "startsWith s (p @ q)"
  shows "startsWith s p"
proof -
  from assms have "take (length p) (take (length (p @ q)) s) = take (length p) (p @ q)"
    by (simp only: startsWith_def)
  then show ?thesis by (simp add: startsWith_def min_def)
qed

lemma matchUrlAt_http:
  assumes "matchUrlAt s = Some m"
  shows "startsWith s ''http''"
proof -
  from assms have "startsWith s (''http'' @ ''s://'') \<or> startsWith s (''http'' @ ''://'')"
    by (simp add: matchUrlAt_def split: if_splits)
  then show ?thesis by (blast dest: startsWith_shorter)
qed

lemma matchUrl_includes: "matchUrl s = Some m \<Longrightarrow> includesStr s ''http''"
proof (induction s)
  case Nil
  then show ?case by simp
next
  case (Cons x xs)
  show ?case
  proof (cases "matchUrlAt (x # xs)")
    case None
    with Cons show ?thesis by simp
  next
    case (Some m')
    then have "startsWith (x # xs) ''http''" by (rule matchUrlAt_http)
    then show ?thesis by simp
  qed
qed

lemma scheme_match_shape:
  assumes "startsWith s p"
  shows "\<exists>post. s = (p @ takeWhile P (drop (length p) s)) @ post
           \<and> list_all P (takeWhile P (drop (length p) s))
           \<and> (post = [] \<or> \<not> P (hd post))"
proof -
  from assms have "s = p @ drop (length p) s"
    by (metis append_take_drop_id startsWith_def)
  then have "s = (p @ takeWhile P (drop (length p) s)) @ dropWhile P (drop (length p) s)"
    by simp
  moreover have "list_all P (takeWhile P (drop (length p) s))"
    unfolding list_all_iff by (auto dest: set_takeWhileD)
  moreover have "dropWhile P (drop (length p) s) = []
      \<or> \<not> P (hd (dropWhile P (drop (length p) s)))"
    using hd_dropWhile [of P "drop (length p) s"] by blast
  ultimately show ?thesis by blast
qed

lemma matchUrlAt_shape:
  assumes "matchUrlAt s = Some m"
  shows "\<exists>post. s = m @ post
           \<and> (startsWith m ''http://'' \<or> startsWith m ''https://'')
           \<and> list_all (\<lambda>ch. \<not> isSpace ch) m
           \<and> (post = [] \<or> isSpace (hd post))"
proof -
  let ?P = "\<lambda>ch. \<not> isSpace ch"
  consider (https) "startsWith s ''https://''" "m = ''https://'' @ takeWhile ?P (drop 8 s)"
    | (http) "startsWith s ''http://''" "m = ''http://'' @ takeWhile ?P (drop 7 s)"
    using assms by (auto simp: matchUrlAt_def split: if_splits)
  then show ?thesis
  proof cases
    case https
    have len: "drop (length ''https://'') s = drop 8 s" by (simp add: eval_nat_numeral)
    from scheme_match_shape [OF https(1), of ?P] obtain post where
      "s = m @ post" "list_all ?P (takeWhile ?P (drop 8 s))" "post = [] \<or> isSpace (hd post)"
      unfolding len https(2) by auto
    moreover have "list_all ?P ''https://''" by (simp add: isSpace_def)
    ultimately show ?thesis using https(2) by (auto simp: startsWith_def)
  next
    case http
    have len: "drop (length ''http://'') s = drop 7 s" by (simp add: eval_nat_numeral)
    from scheme_match_shape [OF http(1), of ?P] obtain post where
      "s = m @ post" "list_all ?P (takeWhile ?P (drop 7 s))" "post = [] \<or> isSpace (hd post)"
      unfolding len http(2) by auto
    moreover have "list_all ?P ''http://''" by (simp add: isSpace_def)
    ultimately show ?thesis using http(2) by (auto simp: startsWith_def)
  qed
qed

lemma matchUrl_shape:
  assumes "matchUrl s = Some m"
  shows "\<exists>pre post. s = pre @ m @ post
           \<and> (startsWith m ''http://'' \<or> startsWith m ''https://'')
           \<and> list_all (\<lambda>ch. \<not> isSpace ch) m
           \<and> (post = [] \<or> isSpace (hd post))"
  using assms
proof (induction s)
  case Nil
  then show ?case by simp
next
  case (Cons x xs)
  show ?case
  proof (cases "matchUrlAt (x # xs)")
    case (Some m')
    with Cons.prems have "matchUrlAt (x # xs) = Some m" by simp
    from matchUrlAt_shape [OF this] obtain post where
      "x # xs = [] @ m @ post"
      "startsWith m ''http://'' \<or> startsWith m ''https://''"
      "list_all (\<lambda>ch. \<not> isSpace ch) m" "post = [] \<or> isSpace (hd post)"
      by auto
    then show ?thesis by blast
  next
    case None
    with Cons.prems have "matchUrl xs = Some m" by simp
    from Cons.IH [OF this] obtain pre post where
      "xs = pre @ m @ post"
      "startsWith m ''http://'' \<or> startsWith m ''https://''"
      "list_all (\<lambda>ch. \<not> isSpace ch) m" "post = [] \<or> isSpace (hd post)"
      by blast
    then have "x # xs = (x # pre) @ m @ post" by simp
    with \<open>startsWith m ''http://'' \<or> startsWith m ''https://''\<close>
      \<open>list_all (\<lambda>ch. \<not> isSpace ch) m\<close> \<open>post = [] \<or> isSpace (hd post)\<close>
    show ?thesis by blast
  qed
qed

lemma plainTextUrl_shape:
  assumes "plainTextUrl i = Some u"
  shows "\<exists>s pre post. v i = VStr s \<and> s = pre @ u @ post
           \<and> (startsWith u ''http://'' \<or> startsWith u ''https://'')
           \<and> list_all (\<lambda>ch. \<not> isSpace ch) u"
proof -
  from assms obtain s where s: "v i = VStr s" "matchUrl s = Some u"
    by (auto simp: plainTextUrl_def split: jsval.splits)
  from matchUrl_shape [OF s(2)] s(1) show ?thesis by blast
qed

lemma matchUrlAt_Nil: "matchUrlAt [] = None"
  by (simp add: matchUrlAt_def startsWith_def)

lemma matchUrlAt_sound:
  assumes "matchUrlAt s = Some m"
  shows "\<exists>post. s = m @ post \<and> isUrlText m"
proof -
  let ?P = "\<lambda>ch. \<not> isSpace ch"
  consider (https) "startsWith s ''https://''" "takeWhile ?P (drop 8 s) \<noteq> []"
      "m = ''https://'' @ takeWhile ?P (drop 8 s)"
    | (http) "startsWith s ''http://''" "takeWhile ?P (drop 7 s) \<noteq> []"
      "m = ''http://'' @ takeWhile ?P (drop 7 s)"
    using assms by (auto simp: matchUrlAt_def split: if_splits)
  then show ?thesis
  proof cases
    case https
    have len: "drop (length ''https://'') s = drop 8 s" by (simp add: eval_nat_numeral)
    from scheme_match_shape [OF https(1), of ?P] obtain post where
      "s = m @ post" "list_all ?P (takeWhile ?P (drop 8 s))"
      unfolding len https(3) by auto
    with https(2,3) show ?thesis unfolding isUrlText_def by blast
  next
    case http
    have len: "drop (length ''http://'') s = drop 7 s" by (simp add: eval_nat_numeral)
    from scheme_match_shape [OF http(1), of ?P] obtain post where
      "s = m @ post" "list_all ?P (takeWhile ?P (drop 7 s))"
      unfolding len http(3) by auto
    with http(2,3) show ?thesis unfolding isUrlText_def by blast
  qed
qed

lemma takeWhile_run:
  assumes "list_all P run"
  shows "takeWhile P (run @ rest) = run @ takeWhile P rest"
  using assms by (induction run) simp_all

lemma matchUrlAt_complete:
  assumes "isUrlText m'"
  shows "\<exists>m. matchUrlAt (m' @ post') = Some m \<and> length m' \<le> length m"
proof -
  let ?P = "\<lambda>ch. \<not> isSpace ch"
  from assms obtain run where run: "run \<noteq> []" "list_all ?P run"
    and m': "m' = ''http://'' @ run \<or> m' = ''https://'' @ run"
    unfolding isUrlText_def by blast
  have tw: "takeWhile ?P (run @ post') = run @ takeWhile ?P post'"
    using run(2) by (rule takeWhile_run)
  from m' show ?thesis
  proof
    assume h: "m' = ''https://'' @ run"
    have "matchUrlAt (m' @ post') = Some (''https://'' @ run @ takeWhile ?P post')"
      using run(1) by (simp add: h matchUrlAt_def startsWith_def tw)
    then show ?thesis by (simp add: h)
  next
    assume h: "m' = ''http://'' @ run"
    have "matchUrlAt (m' @ post') = Some (''http://'' @ run @ takeWhile ?P post')"
      using run(1) by (simp add: h matchUrlAt_def startsWith_def tw)
    then show ?thesis by (simp add: h)
  qed
qed

lemma matchUrl_none:
  assumes "matchUrl s = None" and "s = pre @ rest"
  shows "matchUrlAt rest = None"
  using assms
proof (induction s arbitrary: pre)
  case Nil
  then show ?case by (simp add: matchUrlAt_Nil)
next
  case (Cons x xs)
  from Cons.prems(1) have at: "matchUrlAt (x # xs) = None" and tl: "matchUrl xs = None"
    by (simp_all split: option.splits)
  show ?case
  proof (cases pre)
    case Nil
    with Cons.prems(2) at show ?thesis by simp
  next
    case (Cons y pre')
    with Cons.prems(2) have "xs = pre' @ rest" by simp
    with tl show ?thesis by (rule Cons.IH)
  qed
qed

lemma matchUrl_first:
  assumes "matchUrl s = Some m"
  shows "\<exists>pre post. s = pre @ m @ post \<and> matchUrlAt (m @ post) = Some m
           \<and> (\<forall>pre1 rest. s = pre1 @ rest \<and> length pre1 < length pre
                  \<longrightarrow> matchUrlAt rest = None)"
  using assms
proof (induction s)
  case Nil
  then show ?case by simp
next
  case (Cons x xs)
  show ?case
  proof (cases "matchUrlAt (x # xs)")
    case (Some m1)
    with Cons.prems have at: "matchUrlAt (x # xs) = Some m" by simp
    from matchUrlAt_sound [OF at] obtain post where post: "x # xs = m @ post" by blast
    with at have "x # xs = [] @ m @ post \<and> matchUrlAt (m @ post) = Some m
        \<and> (\<forall>pre1 rest. x # xs = pre1 @ rest \<and> length pre1 < length ([] :: string)
              \<longrightarrow> matchUrlAt rest = None)"
      by simp
    then show ?thesis by blast
  next
    case None
    with Cons.prems have "matchUrl xs = Some m" by simp
    from Cons.IH [OF this] obtain pre post where
      split: "xs = pre @ m @ post" and at: "matchUrlAt (m @ post) = Some m"
      and before: "\<And>pre1 rest. xs = pre1 @ rest \<Longrightarrow> length pre1 < length pre
          \<Longrightarrow> matchUrlAt rest = None"
      by blast
    have "matchUrlAt rest = None"
      if "x # xs = pre1 @ rest" "length pre1 < length (x # pre)" for pre1 rest
    proof (cases pre1)
      case Nil
      with that(1) None show ?thesis by simp
    next
      case (Cons y pre2)
      with that have "xs = pre2 @ rest" "length pre2 < length pre" by simp_all
      then show ?thesis by (rule before)
    qed
    with split at have "x # xs = (x # pre) @ m @ post \<and> matchUrlAt (m @ post) = Some m
        \<and> (\<forall>pre1 rest. x # xs = pre1 @ rest \<and> length pre1 < length (x # pre)
              \<longrightarrow> matchUrlAt rest = None)"
      by simp
    then show ?thesis by blast
  qed
qed

text \<open>The match computed is the match of the pattern: found when there is one, leftmost, longest.\<close>

lemma matchUrl_firstMatch: "firstMatch s (matchUrl s)"
proof (cases "matchUrl s")
  case None
  have "\<not> (\<exists>pre m post. s = pre @ m @ post \<and> isUrlText m)"
  proof
    assume "\<exists>pre m post. s = pre @ m @ post \<and> isUrlText m"
    then obtain pre m post where s: "s = pre @ m @ post" and m: "isUrlText m" by blast
    from matchUrl_none [OF None s] have "matchUrlAt (m @ post) = None" .
    with matchUrlAt_complete [OF m, of post] show False by simp
  qed
  with None show ?thesis by (simp add: firstMatch_def)
next
  case (Some m)
  from matchUrl_first [OF Some] obtain pre post where
    split: "s = pre @ m @ post" and at: "matchUrlAt (m @ post) = Some m"
    and before: "\<And>pre1 rest. s = pre1 @ rest \<Longrightarrow> length pre1 < length pre
        \<Longrightarrow> matchUrlAt rest = None"
    by blast
  from matchUrlAt_sound [OF at] have url: "isUrlText m" by blast
  have leftmost: "length pre \<le> length pre'"
    if "s = pre' @ m' @ post'" "isUrlText m'" for pre' m' post'
  proof (rule ccontr)
    assume "\<not> length pre \<le> length pre'"
    then have "length pre' < length pre" by simp
    with that(1) have "matchUrlAt (m' @ post') = None" by (rule before)
    with matchUrlAt_complete [OF that(2), of post'] show False by simp
  qed
  have longest: "length m' \<le> length m"
    if "m @ post = m' @ post'" "isUrlText m'" for m' post'
  proof -
    from matchUrlAt_complete [OF that(2), of post'] obtain m2 where
      "matchUrlAt (m' @ post') = Some m2" "length m' \<le> length m2" by blast
    with that(1) at show ?thesis by simp
  qed
  have "\<exists>pre post. s = pre @ m @ post \<and> isUrlText m
      \<and> (\<forall>pre' m' post'. s = pre' @ m' @ post' \<and> isUrlText m' \<longrightarrow> length pre \<le> length pre')
      \<and> (\<forall>m' post'. m @ post = m' @ post' \<and> isUrlText m' \<longrightarrow> length m' \<le> length m)"
    using split url leftmost longest by blast
  with Some show ?thesis by (simp add: firstMatch_def)
qed

lemma plainTextUrl_firstMatch:
  assumes "v i = VStr s"
  shows "firstMatch s (plainTextUrl i)"
  using assms matchUrl_firstMatch [of s] by (simp add: plainTextUrl_def)

lemma plainTextUrl_no_text:
  assumes "\<forall>s. v i \<noteq> VStr s"
  shows "plainTextUrl i = None"
  using assms by (cases "v i") (simp_all add: plainTextUrl_def)

lemma findUrlLoop_no_link:
  assumes "\<not> (t i = ''a'' \<and> url i \<noteq> None \<and> url i \<noteq> Some '''')"
  shows "findUrlLoop (i # rest) =
     (case v i of
        VStr s \<Rightarrow>
          (if includesStr s ''http''
           then (case matchUrl s of Some m \<Rightarrow> m | None \<Rightarrow> findUrlLoop rest)
           else findUrlLoop rest)
      | _ \<Rightarrow> findUrlLoop rest)"
  by (subst findUrlLoop.simps) (rule if_not_P [OF assms])

lemma findUrlLoop_link:
  assumes "explicitLinkUrl i = Some u"
  shows "findUrlLoop (i # rest) = u"
proof -
  from assms have u: "url i = Some u" "t i = ''a''" "u \<noteq> ''''"
    by (auto simp: explicitLinkUrl_def split: option.splits if_splits)
  then show ?thesis by (simp add: findUrlLoop.simps)
qed

lemma findUrlLoop_text:
  assumes "explicitLinkUrl i = None" and "plainTextUrl i = Some m"
  shows "findUrlLoop (i # rest) = m"
proof -
  from assms(1) have nolink: "\<not> (t i = ''a'' \<and> url i \<noteq> None \<and> url i \<noteq> Some '''')"
    by (auto simp: explicitLinkUrl_def split: option.splits if_splits)
  from assms(2) obtain s where s: "v i = VStr s" "matchUrl s = Some m"
    by (auto simp: plainTextUrl_def split: jsval.splits)
  then have "includesStr s ''http''" by (simp add: matchUrl_includes)
  with s show ?thesis by (simp add: findUrlLoop_no_link [OF nolink])
qed

lemma findUrlLoop_skip:
  assumes "explicitLinkUrl i = None" and "plainTextUrl i = None"
  shows "findUrlLoop (i # rest) = findUrlLoop rest"
proof -
  from assms(1) have nolink: "\<not> (t i = ''a'' \<and> url i \<noteq> None \<and> url i \<noteq> Some '''')"
    by (auto simp: explicitLinkUrl_def split: option.splits if_splits)
  from assms(2) show ?thesis
    by (simp add: findUrlLoop_no_link [OF nolink] plainTextUrl_def
        split: jsval.splits)
qed

lemma firstUrl_Cons:
  "firstUrl (i # rest) = (case urlOfItem i of Some u \<Rightarrow> u | None \<Rightarrow> firstUrl rest)"
  by (simp add: firstUrl_def List.map_filter_simps split: option.splits)

lemma findUrlLoop_firstUrl: "findUrlLoop items = firstUrl items"
proof (induction items)
  case Nil
  show ?case by (simp add: firstUrl_def List.map_filter_simps)
next
  case (Cons i rest)
  show ?case
  proof (cases "explicitLinkUrl i")
    case (Some u)
    then show ?thesis
      by (simp add: findUrlLoop_link firstUrl_Cons urlOfItem_def)
  next
    case None
    show ?thesis
    proof (cases "plainTextUrl i")
      case pNone: None
      with None Cons.IH show ?thesis
        by (simp add: findUrlLoop_skip firstUrl_Cons urlOfItem_def)
    next
      case (Some m)
      with None show ?thesis
        by (simp add: findUrlLoop_text firstUrl_Cons urlOfItem_def)
    qed
  qed
qed

lemma firstUrl_none:
  assumes "list_all (\<lambda>i. urlOfItem i = None) items"
  shows "firstUrl items = ''''"
  using assms by (induction items) (simp_all add: firstUrl_Cons firstUrl_def List.map_filter_simps)

lemma firstUrl_first:
  assumes "list_all (\<lambda>i. urlOfItem i = None) pre" and "urlOfItem i = Some u"
  shows "firstUrl (pre @ i # post) = u"
  using assms by (induction pre) (simp_all add: firstUrl_Cons)

text \<open>
  C4. The locator returns the first URL its block's content offers, in content order: the
  URL of the first item that offers one. An item offers the target of its explicit link
  before any URL matched in its text; the URL matched in a text is the match of
  \<^verbatim>\<open>https?://[^\s]+\<close> there: none only when no part of the text matches, otherwise the
  leftmost and longest part that does; an item whose text is not a string offers none.
  With no block, no content, or no item offering a URL, the result is the empty string.
\<close>

theorem findUrlInBlock_first_url:
  "findUrlInBlock None = ''''
   \<and> findUrlInBlock (Some \<lparr>content = None\<rparr>) = ''''
   \<and> (list_all (\<lambda>i. urlOfItem i = None) items \<longrightarrow>
        findUrlInBlock (Some \<lparr>content = Some items\<rparr>) = '''')
   \<and> (list_all (\<lambda>i. urlOfItem i = None) pre \<and> urlOfItem i = Some u \<longrightarrow>
        findUrlInBlock (Some \<lparr>content = Some (pre @ i # post)\<rparr>) = u)
   \<and> (explicitLinkUrl i = Some u \<longrightarrow> urlOfItem i = Some u)
   \<and> (explicitLinkUrl i = None \<longrightarrow> urlOfItem i = plainTextUrl i)
   \<and> (plainTextUrl i = Some u \<longrightarrow>
        (\<exists>s pre post. v i = VStr s \<and> s = pre @ u @ post
           \<and> (startsWith u ''http://'' \<or> startsWith u ''https://'')
           \<and> list_all (\<lambda>ch. \<not> isSpace ch) u))
   \<and> (v i = VStr s \<longrightarrow> firstMatch s (plainTextUrl i))
   \<and> ((\<forall>s. v i \<noteq> VStr s) \<longrightarrow> plainTextUrl i = None)"
  using plainTextUrl_shape [of i u] plainTextUrl_firstMatch [of i s] plainTextUrl_no_text [of i]
  by (simp add: findUrlInBlock_def findUrlLoop_firstUrl firstUrl_none firstUrl_first
      urlOfItem_def)

lemma item_note_offers_nothing: "urlOfItem item_note = None"
  by (simp add: urlOfItem_def explicitLinkUrl_def plainTextUrl_def item_note_def
      matchUrlAt_def startsWith_def)

lemma item_link_offers_target:
  "explicitLinkUrl item_link = Some ''https://book.douban.com/subject/1234567/''"
  by (simp add: explicitLinkUrl_def item_link_def)

lemma item_text_no_link: "explicitLinkUrl item_text = None"
  by (simp add: explicitLinkUrl_def item_text_def)

lemma item_text_match:
  "plainTextUrl item_text = Some ''https://example.org/later''"
  by (simp add: plainTextUrl_def item_text_def matchUrlAt_def startsWith_def isSpace_def)

theorem findUrlInBlock_first_url_witness:
  "findUrlInBlock (Some \<lparr>content = Some [item_note, item_link, item_text]\<rparr>)
     = ''https://book.douban.com/subject/1234567/''
   \<and> findUrlInBlock (Some \<lparr>content = Some [item_note, item_text, item_link]\<rparr>)
     = ''https://example.org/later''
   \<and> firstMatch ''or https://example.org/later here'' (Some ''https://example.org/later'')"
proof -
  have pre: "list_all (\<lambda>i. urlOfItem i = None) [item_note]"
    by (simp add: item_note_offers_nothing)
  from findUrlInBlock_first_url [of "[]" "[item_note]" item_link
      "''https://book.douban.com/subject/1234567/''" "[item_text]"]
  have link: "urlOfItem item_link = Some ''https://book.douban.com/subject/1234567/''"
    and first: "list_all (\<lambda>i. urlOfItem i = None) [item_note]
        \<and> urlOfItem item_link = Some ''https://book.douban.com/subject/1234567/'' \<longrightarrow>
      findUrlInBlock (Some \<lparr>content = Some ([item_note] @ item_link # [item_text])\<rparr>)
        = ''https://book.douban.com/subject/1234567/''"
    using item_link_offers_target by blast+
  from findUrlInBlock_first_url [of "[]" "[item_note]" item_text
      "''https://example.org/later''" "[item_link]" "''or https://example.org/later here''"]
  have text_offer: "urlOfItem item_text = plainTextUrl item_text"
    and text_first: "list_all (\<lambda>i. urlOfItem i = None) [item_note]
        \<and> urlOfItem item_text = Some ''https://example.org/later'' \<longrightarrow>
      findUrlInBlock (Some \<lparr>content = Some ([item_note] @ item_text # [item_link])\<rparr>)
        = ''https://example.org/later''"
    and text_match: "v item_text = VStr ''or https://example.org/later here'' \<longrightarrow>
      firstMatch ''or https://example.org/later here'' (plainTextUrl item_text)"
    using item_text_no_link by blast+
  have "v item_text = VStr ''or https://example.org/later here''"
    by (simp add: item_text_def)
  with text_match have "firstMatch ''or https://example.org/later here''
      (plainTextUrl item_text)"
    by blast
  then have "firstMatch ''or https://example.org/later here''
      (Some ''https://example.org/later'')"
    by (simp only: item_text_match)
  with first pre link text_first text_offer show ?thesis
    by (simp add: item_text_match)
qed


section \<open>Properties of the Rule Matcher\<close>

lemma ruleTest_eq:
  "ruleTest RegExp u r = Inr (enabled r \<and> patternMatches RegExp u r)"
  by (simp add: ruleTest_def patternMatches_def split: sum.splits)

lemma findFirst_find:
  assumes "\<And>x. cb x = Inr (P x)"
  shows "findFirst cb xs = Inr (List.find P xs)"
  by (induction xs) (simp_all add: assms)

lemma matchRule_find:
  "matchRule RegExp u rules =
     Inr (List.find (\<lambda>r. enabled r \<and> patternMatches RegExp u r) rules)"
  unfolding matchRule_def by (rule findFirst_find) (rule ruleTest_eq)


lemma find_first_split:
  assumes "List.find P xs = Some x"
  shows "\<exists>pre post. xs = pre @ x # post \<and> P x \<and> list_all (\<lambda>y. \<not> P y) pre"
  using assms
proof (induction xs)
  case Nil
  then show ?case by simp
next
  case (Cons y ys)
  show ?case
  proof (cases "P y")
    case True
    with Cons.prems have "y = x" by simp
    with True have "y # ys = [] @ x # ys \<and> P x \<and> list_all (\<lambda>y. \<not> P y) []" by simp
    then show ?thesis by blast
  next
    case False
    with Cons.prems have "List.find P ys = Some x" by simp
    then obtain pre post where "ys = pre @ x # post" "P x" "list_all (\<lambda>y. \<not> P y) pre"
      using Cons.IH by blast
    with False have "y # ys = (y # pre) @ x # post \<and> P x \<and> list_all (\<lambda>y. \<not> P y) (y # pre)"
      by simp
    then show ?thesis by blast
  qed
qed

lemma find_last_holds:
  assumes "xs \<noteq> []" and "P (last xs)"
  shows "List.find P xs \<noteq> None"
proof -
  from assms have "last xs \<in> set xs" "P (last xs)" by simp_all
  then show ?thesis by (auto simp: find_None_iff)
qed

lemma trim_dot_star: "trim ''.*'' = ''.*''"
  by (simp add: trim_def isSpace_def)

lemma compilePattern_dot_star:
  assumes "urlPattern r = Some ''.*''"
  shows "compilePattern RegExp r =
     (case RegExp ''.*'' ''i'' of None \<Rightarrow> Inl (SyntaxError ''.*'') | Some regex \<Rightarrow> Inr regex)"
  using assms by (simp add: compilePattern_def trim_dot_star startsWith_def Let_def)



lemma RegExp_sample_dot_star: "RegExp_sample ''.*'' ''i'' = Some (\<lambda>u. True)"
  by (simp add: RegExp_sample_def validFlags_def)



text \<open>
  C6. With an enabled rule of pattern \<^verbatim>\<open>.*\<close> last in the list, the matcher returns a
  rule for every URL, and that rule is the first one in list order that is enabled and
  whose compiled pattern matches the URL. That the expression \<^verbatim>\<open>.*\<close> with the flag
  \<^verbatim>\<open>i\<close> compiles and matches every string is the engine's part.
\<close>

theorem matchRule_fallback_first_match:
  assumes "rules \<noteq> []"
    and "urlPattern (last rules) = Some ''.*''"
    and "enabled (last rules)"
    and "RegExp ''.*'' ''i'' = Some regex"
    and "\<And>s. regex s"
  shows "\<exists>r pre post. matchRule RegExp u rules = Inr (Some r)
           \<and> rules = pre @ r # post
           \<and> enabled r \<and> patternMatches RegExp u r
           \<and> list_all (\<lambda>q. \<not> (enabled q \<and> patternMatches RegExp u q)) pre"
proof -
  let ?P = "\<lambda>q. enabled q \<and> patternMatches RegExp u q"
  have "patternMatches RegExp u (last rules)"
    using assms(2,4,5) by (simp add: patternMatches_def compilePattern_dot_star)
  with assms(1,3) have "List.find ?P rules \<noteq> None"
    by (intro find_last_holds) simp_all
  then obtain r where r: "List.find ?P rules = Some r" by blast
  from find_first_split [OF r] obtain pre post where
    "rules = pre @ r # post" "?P r" "list_all (\<lambda>q. \<not> ?P q) pre" by blast
  with r show ?thesis by (auto simp: matchRule_find)
qed

theorem matchRule_fallback_first_match_witness:
  "[rule_specific, rule_generic] \<noteq> []
   \<and> urlPattern (last [rule_specific, rule_generic]) = Some ''.*''
   \<and> enabled (last [rule_specific, rule_generic])
   \<and> RegExp_sample ''.*'' ''i'' = Some (\<lambda>s. True)
   \<and> (\<exists>r pre post.
         matchRule RegExp_sample ''https://example.org/'' [rule_specific, rule_generic]
           = Inr (Some r)
         \<and> [rule_specific, rule_generic] = pre @ r # post
         \<and> enabled r \<and> patternMatches RegExp_sample ''https://example.org/'' r
         \<and> list_all (\<lambda>q. \<not> (enabled q \<and> patternMatches RegExp_sample ''https://example.org/'' q))
             pre)"
proof -
  have h1: "[rule_specific, rule_generic] \<noteq> []" by simp
  have h2: "urlPattern (last [rule_specific, rule_generic]) = Some ''.*''"
    by (simp add: rule_generic_def)
  have h3: "enabled (last [rule_specific, rule_generic])"
    by (simp add: rule_generic_def)
  have h5: "\<And>s. (\<lambda>s::string. True) s" by simp
  from matchRule_fallback_first_match [where rules = "[rule_specific, rule_generic]"
      and RegExp = RegExp_sample and regex = "\<lambda>s. True" and u = "''https://example.org/''",
      OF h1 h2 h3 RegExp_sample_dot_star h5]
  show ?thesis using h2 h3 RegExp_sample_dot_star by simp
qed


section \<open>Properties of the Property Normalizer\<close>

text \<open>
  C8. For a property of type TextChoices the formatted property carries the normalized
  value sequence (the array itself, the non-empty trimmed pieces of a string split at
  spaces, or nothing for any other value) and type arguments made of exactly one choice
  per element of that sequence, with the element as name and the empty colour, and the
  sub-type \<^verbatim>\<open>multi\<close>; the type arguments the caller supplied play no part.
\<close>

theorem formatProperty_TextChoices:
  assumes "type item = TextChoices"
  shows "\<exists>xs. value (formatProperty parseFloat parseDate item) = VArr xs
           \<and> xs = (case value item of
                    VArr ys \<Rightarrow> ys
                  | VStr s \<Rightarrow> filter (\<lambda>w. w \<noteq> []) (map trim (split (CHR '' '') s))
                  | _ \<Rightarrow> [])
           \<and> typeArgs (formatProperty parseFloat parseDate item)
               = Some \<lparr>subType = Some ''multi'',
                       choices = Some (map (\<lambda>w. \<lparr>n = w, c = ''''\<rparr>) xs),
                       other = []\<rparr>
           \<and> formatProperty parseFloat parseDate (item\<lparr>typeArgs := supplied\<rparr>)
               = formatProperty parseFloat parseDate item"
  using assms by (cases "value item") (simp_all add: formatProperty_def Let_def)

theorem formatProperty_TextChoices_witness:
  "type prop_genre = TextChoices
   \<and> value (formatProperty (\<lambda>s. NaN) (\<lambda>s. None) prop_genre) = VArr [''fiction'', ''nonfiction'']
   \<and> typeArgs (formatProperty (\<lambda>s. NaN) (\<lambda>s. None) prop_genre)
       = Some \<lparr>subType = Some ''multi'',
               choices = Some [\<lparr>n = ''fiction'', c = ''''\<rparr>, \<lparr>n = ''nonfiction'', c = ''''\<rparr>],
               other = []\<rparr>"
proof -
  have ty: "type prop_genre = TextChoices" by (simp add: prop_genre_def)
  have sp: "filter (\<lambda>w. w \<noteq> []) (map trim (split (CHR '' '') ''fiction  nonfiction''))
      = [''fiction'', ''nonfiction'']"
    by (simp add: trim_def isSpace_def)
  from formatProperty_TextChoices [OF ty, of "\<lambda>s. NaN" "\<lambda>s. None"]
  show ?thesis using ty sp by (simp add: prop_genre_def)
qed

text \<open>
  C9. For a property of type Boolean whose value is a string, the formatted value is the
  boolean that tells whether the lower-cased string is one of \<^verbatim>\<open>true\<close>, \<^verbatim>\<open>yes\<close>,
  \<^verbatim>\<open>1\<close>, \<^verbatim>\<open>ok\<close>.
\<close>

theorem formatProperty_Boolean:
  assumes "type item = Boolean" and "value item = VStr s"
  shows "value (formatProperty parseFloat parseDate item)
           = VBool (toLowerCase s = ''true'' \<or> toLowerCase s = ''yes''
                    \<or> toLowerCase s = ''1'' \<or> toLowerCase s = ''ok'')"
  using assms by (simp add: formatProperty_def Let_def)

theorem formatProperty_Boolean_witness:
  "type prop_read = Boolean \<and> value prop_read = VStr ''Yes''
   \<and> value (formatProperty (\<lambda>s. NaN) (\<lambda>s. None) prop_read) = VBool True
   \<and> value (formatProperty (\<lambda>s. NaN) (\<lambda>s. None) (prop_read\<lparr>value := VStr ''on''\<rparr>)) = VBool False"
proof -
  have ty: "type prop_read = Boolean" and val: "value prop_read = VStr ''Yes''"
    by (simp_all add: prop_read_def)
  have ty': "type (prop_read\<lparr>value := VStr ''on''\<rparr>) = Boolean"
    and val': "value (prop_read\<lparr>value := VStr ''on''\<rparr>) = VStr ''on''"
    by (simp_all add: prop_read_def)
  from formatProperty_Boolean [OF ty val, of "\<lambda>s. NaN" "\<lambda>s. None"]
    formatProperty_Boolean [OF ty' val', of "\<lambda>s. NaN" "\<lambda>s. None"]
  show ?thesis using ty val by (simp add: toLowerCase_def lowerChar_def)
qed


section \<open>Properties of the Asset Resolver\<close>


lemma resolveInlineImage_settled:
  "settled (inlineUpload host s) s (fst (resolveInlineImage host s h))"
proof (cases "matchDataUri s")
  case None
  then show ?thesis by (simp add: resolveInlineImage_def settled_def)
next
  case (Some groups)
  obtain mime b64 where groups: "groups = (mime, b64)" by (cases groups)
  show ?thesis
  proof (cases "atob host b64")
    case (Inl e)
    with Some groups show ?thesis by (simp add: resolveInlineImage_def settled_def)
  next
    case (Inr bytes)
    obtain r h1 where up: "upload_asset_binary host mime bytes h = (r, h1)"
      by (cases "upload_asset_binary host mime bytes h")
    show ?thesis
    proof (cases r)
      case (Inl e)
      with Some groups Inr up show ?thesis by (simp add: resolveInlineImage_def settled_def)
    next
      case r: (Inr w)
      with Some groups Inr up have "inlineUpload host s w"
        unfolding inlineUpload_def by blast
      with Some groups Inr up r show ?thesis
        by (simp add: resolveInlineImage_def settled_def)
    qed
  qed
qed

lemma fetchAndUpload_result:
  assumes "fetch host s NoCors h = (Inr resp, h1)" and "ok resp" and "body resp = Inr blob"
    and "upload_asset_binary host (mimeOf resp) blob h1 = (r2, h2)"
  shows "fetchAndUpload host s h =
     (case r2 of
        Inl e \<Rightarrow> (Inl e, h2)
      | Inr uploadedUrl \<Rightarrow>
          (if truthy uploadedUrl then (Inr uploadedUrl, h2) else (Inr (VStr s), h2)))"
  using assms by (simp add: fetchAndUpload_def mimeOf_def Let_def)

lemma fetchAndUpload_settled:
  "settled (remoteUpload host s) s (fst (fetchAndUpload host s h))"
proof -
  obtain r h1 where f: "fetch host s NoCors h = (r, h1)"
    by (cases "fetch host s NoCors h")
  show ?thesis
  proof (cases r)
    case (Inl e)
    with f show ?thesis by (simp add: fetchAndUpload_def settled_def)
  next
    case r: (Inr resp)
    show ?thesis
    proof (cases "ok resp")
      case False
      with f r show ?thesis by (simp add: fetchAndUpload_def settled_def)
    next
      case True
      show ?thesis
      proof (cases "body resp")
        case (Inl e)
        with f r True show ?thesis by (simp add: fetchAndUpload_def settled_def)
      next
        case (Inr blob)
        obtain r2 h2 where up: "upload_asset_binary host (mimeOf resp) blob h1 = (r2, h2)"
          by (cases "upload_asset_binary host (mimeOf resp) blob h1")
        from f r have f': "fetch host s NoCors h = (Inr resp, h1)" by simp
        note eq = fetchAndUpload_result [OF f' True Inr up]
        show ?thesis
        proof (cases r2)
          case (Inl e)
          with eq show ?thesis by (simp add: settled_def)
        next
          case r2: (Inr w)
          with f' True Inr up have "remoteUpload host s w"
            unfolding remoteUpload_def by blast
          with eq r2 show ?thesis by (simp add: settled_def)
        qed
      qed
    qed
  qed
qed

lemma resolveRemoteImage_settled:
  "settled (remoteUpload host s) s (fst (resolveRemoteImage host s h))"
proof -
  obtain r h1 where up: "upload_asset_url host s h = (r, h1)"
    by (cases "upload_asset_url host s h")
  show ?thesis
  proof (cases r)
    case (Inl e)
    with up show ?thesis by (simp add: resolveRemoteImage_def fetchAndUpload_settled)
  next
    case r: (Inr w)
    show ?thesis
    proof (cases "truthy w")
      case True
      from up r have "remoteUpload host s w" unfolding remoteUpload_def by blast
      with up r True show ?thesis by (simp add: resolveRemoteImage_def settled_def)
    next
      case False
      with up r show ?thesis by (simp add: resolveRemoteImage_def fetchAndUpload_settled)
    qed
  qed
qed

lemma processItem_resolved:
  "\<exists>p h'. processItem host wanted item h = (Inr p, h') \<and> resolvedFrom host wanted item p"
proof (cases "isCoverToResolve wanted item")
  case False
  then show ?thesis by (simp add: processItem_def resolvedFrom_def)
next
  case True
  then obtain s where s: "value item = VStr s"
    by (auto simp: isCoverToResolve_def split: jsval.splits)
  define branch where "branch =
    (if startsWith s ''data:'' then resolveInlineImage host s h
     else resolveRemoteImage host s h)"
  obtain r h1 where b: "branch = (r, h1)" by (cases branch)
  have "settled (\<lambda>w. if startsWith s ''data:'' then inlineUpload host s w
                      else remoteUpload host s w) s (fst branch)"
    using resolveInlineImage_settled [of host s h] resolveRemoteImage_settled [of host s h]
    by (simp add: branch_def)
  with b have st: "settled (\<lambda>w. if startsWith s ''data:'' then inlineUpload host s w
                      else remoteUpload host s w) s r" by simp
  have eq: "processItem host wanted item h =
      (Inr \<lparr>name = name item, type = type item, typeArgs = typeArgs item,
            value = (case r of Inl e \<Rightarrow> VStr s | Inr w \<Rightarrow> w)\<rparr>, h1)"
    using True s b by (cases r) (simp_all add: processItem_def branch_def)
  from st True s show ?thesis
    unfolding eq by (cases r) (auto simp: resolvedFrom_def settled_def uploadedFor_def)
qed

lemma processLoop_resolved:
  "\<exists>ps h'. processLoop host wanted acc metadata h = (Inr (acc @ ps), h')
          \<and> list_all2 (resolvedFrom host wanted) metadata ps"
proof (induction metadata arbitrary: acc h)
  case Nil
  show ?case by simp
next
  case (Cons item rest)
  obtain p h1 where p: "processItem host wanted item h = (Inr p, h1)"
    "resolvedFrom host wanted item p"
    using processItem_resolved [of host wanted item h] by blast
  from Cons.IH [of "acc @ [p]" h1] obtain ps h' where
    "processLoop host wanted (acc @ [p]) rest h1 = (Inr ((acc @ [p]) @ ps), h')"
    "list_all2 (resolvedFrom host wanted) rest ps" by blast
  with p have "processLoop host wanted acc (item # rest) h = (Inr (acc @ (p # ps)), h')
      \<and> list_all2 (resolvedFrom host wanted) (item # rest) (p # ps)"
    by simp
  then show ?case by blast
qed

lemma processProperties_resolved:
  "\<exists>ps h'. processProperties host metadata wanted h = (Inr ps, h')
          \<and> list_all2 (resolvedFrom host wanted) metadata ps"
  using processLoop_resolved [of host wanted "[]" metadata h]
  by (simp add: processProperties_def)

subsection \<open>One image, failure by failure\<close>















text \<open>
  C10. The asset-resolution step returns a list of the same length and order as its
  input, in which every item keeps its name, type and type arguments: each returned item
  is the input item with, at most, another value.
\<close>

theorem processProperties_frame:
  "\<exists>ps h'. processProperties host metadata wanted h = (Inr ps, h')
     \<and> length ps = length metadata
     \<and> map name ps = map name metadata
     \<and> map type ps = map type metadata
     \<and> map typeArgs ps = map typeArgs metadata
     \<and> list_all2 (\<lambda>item p. p = item\<lparr>value := value p\<rparr>) metadata ps"
proof -
  from processProperties_resolved [of host metadata wanted h] obtain ps h' where
    ps: "processProperties host metadata wanted h = (Inr ps, h')"
    "list_all2 (resolvedFrom host wanted) metadata ps" by blast
  have "resolvedFrom host wanted item p \<Longrightarrow>
      name p = name item \<and> type p = type item \<and> typeArgs p = typeArgs item" for item p
    by (simp add: resolvedFrom_def)
  with ps(2) have same:
    "list_all2 (\<lambda>item p. name p = name item \<and> type p = type item \<and> typeArgs p = typeArgs item)
       metadata ps"
    by (rule list_all2_mono)
  then have "length ps = length metadata"
    by (simp add: list_all2_lengthD)
  moreover from same have "map name ps = map name metadata"
    by (induction rule: list_all2_induct) simp_all
  moreover from same have "map type ps = map type metadata"
    by (induction rule: list_all2_induct) simp_all
  moreover from same have "map typeArgs ps = map typeArgs metadata"
    by (induction rule: list_all2_induct) simp_all
  moreover from same have "list_all2 (\<lambda>item p. p = item\<lparr>value := value p\<rparr>) metadata ps"
    by (rule list_all2_mono) simp
  ultimately show ?thesis using ps(1) by blast
qed

theorem processProperties_frame_witness:
  "\<exists>ps h'. processProperties host_page [prop_cover_remote, prop_read] True 0 = (Inr ps, h')
     \<and> length ps = length [prop_cover_remote, prop_read]
     \<and> map name ps = [''cover'', ''read'']
     \<and> map type ps = [Text, Boolean]"
proof -
  from processProperties_frame [of host_page "[prop_cover_remote, prop_read]" True 0]
  obtain ps h' where
    "processProperties host_page [prop_cover_remote, prop_read] True 0 = (Inr ps, h')"
    "length ps = length [prop_cover_remote, prop_read]"
    "map name ps = map name [prop_cover_remote, prop_read]"
    "map type ps = map type [prop_cover_remote, prop_read]"
    by blast
  then show ?thesis
    by (intro exI [of _ ps] exI [of _ h'] conjI)
      (simp_all add: prop_cover_remote_def prop_read_def)
qed


section \<open>Properties of static extraction\<close>

declare showNat.simps [simp del]

text \<open>
  C3, the claim as stated fails: a script that returns a value that is no array (here a
  string) makes static extraction succeed with the empty list of properties.
\<close>

theorem extractMetadataStatic_non_sequence_succeeds:
  "extractMetadataStatic host_page ''https://example.org/a?x=1'' [''return 1;''] 0
     = (Inr [], 1)"
  by (simp add: extractMetadataStatic_def host_page_def isValidUrl_def startsWith_def)

text \<open>
  C3, as the code has it. After a valid URL and a successful fetch, static extraction is
  decided by the script call: when the script returns a value that is not a sequence,
  extraction succeeds with the empty list of properties, so that there is no property to
  commit to the block; when the script returns a sequence, that sequence is the result;
  when the script throws, extraction fails with the error thrown, which reaches the
  caller.
\<close>

theorem extractMetadataStatic_script_outcome:
  assumes "u \<noteq> []" and "isValidUrl host u"
    and "fetch host u Cors h = (Inr resp, h1)" and "ok resp" and "body resp = Inr html"
    and "callScript host (joinLines scriptLines) html (cleanUrl u)
           (getGenericMetadata host html (cleanUrl u)) = outcome"
  shows "extractMetadataStatic host u scriptLines h =
           (case outcome of
              Inl e \<Rightarrow> (Inl e, h1)
            | Inr (RetArray ps) \<Rightarrow> (Inr ps, h1)
            | Inr other_result \<Rightarrow> (Inr [], h1))
         \<and> processProperties host [] wanted h1 = (Inr [], h1)"
  using assms
  by (simp add: extractMetadataStatic_def processProperties_def Let_def
      split: sum.splits scriptValue.splits)

theorem extractMetadataStatic_script_outcome_witness:
  "extractMetadataStatic host_page ''https://example.org/a?x=1'' [''return 1;''] 0 = (Inr [], 1)
   \<and> processProperties host_page [] True 1 = (Inr [], 1)"
proof -
  have a1: "''https://example.org/a?x=1'' \<noteq> []" by simp
  have a2: "isValidUrl host_page ''https://example.org/a?x=1''"
    by (simp add: isValidUrl_def host_page_def startsWith_def)
  have a3: "fetch host_page ''https://example.org/a?x=1'' Cors 0 =
      (Inr \<lparr>ok = True, status = 200, statusText = ''OK'', contentType = Some ''text/html'',
            body = Inr ''<title>A page</title>''\<rparr>, 1)"
    by (simp add: host_page_def)
  have a6: "callScript host_page (joinLines [''return 1;'']) ''<title>A page</title>''
      (cleanUrl ''https://example.org/a?x=1'')
      (getGenericMetadata host_page ''<title>A page</title>''
         (cleanUrl ''https://example.org/a?x=1'')) = Inr (RetStr ''done'')"
    by (simp add: host_page_def)
  from extractMetadataStatic_script_outcome [OF a1 a2 a3 _ _ a6, of True]
  show ?thesis by simp
qed

text \<open>An error of static extraction is the error of the whole block extraction.\<close>

lemma handleBlockExtraction_propagates:
  assumes "findUrlInBlock b = u" and "u \<noteq> []"
    and "matchRule RegExp u rules = Inr (Some r)"
    and "extractMetadataStatic host u (script r) h = (Inl e, h1)"
  shows "handleBlockExtraction host RegExp b rules h = (Inl e, h1)"
  using assms by (simp add: handleBlockExtraction_def)


section \<open>Properties of the Schema Reconciler\<close>

subsection \<open>The loops\<close>

lemma mergeLoop_eq:
  "mergeLoop names ec hn ncs =
     (ec @ filter (\<lambda>nc. n nc \<notin> set names) ncs,
      hn \<or> filter (\<lambda>nc. n nc \<notin> set names) ncs \<noteq> [])"
  by (induction ncs arbitrary: ec hn) simp_all

lemma mergeLoop_existing:
  "mergeLoop (map n (choicesOf e)) (choicesOf e) False (choicesOf p) =
     (choicesOf e @ newChoicesFor e p, newChoicesFor e p \<noteq> [])"
  by (simp add: mergeLoop_eq newChoicesFor_def)

lemma findByName_storeChoices_other:
  assumes "y \<noteq> x"
  shows "findByName y (storeChoices x merged ps) = findByName y ps"
  using assms by (induction ps) (simp_all add: findByName_def)

lemma findByName_storeChoices_same:
  assumes "findByName x ps = Some e"
  shows "findByName x (storeChoices x merged ps) =
     Some (if hasArray e
           then e\<lparr>typeArgs := Some ((spreadArgs e)\<lparr>choices := Some merged\<rparr>)\<rparr>
           else e)"
  using assms by (induction ps) (auto simp: findByName_def)

lemma choicesOf_stored:
  "choicesOf (e\<lparr>typeArgs := Some ((spreadArgs e)\<lparr>choices := Some merged\<rparr>)\<rparr>) = merged"
  by (simp add: choicesOf_def)

lemma stagedFor_cong:
  assumes "findByName (name q) E1 = findByName (name q) E"
  shows "stagedFor E1 q = stagedFor E q"
  using assms by (simp add: stagedFor_def)

lemma toJSON_cong:
  assumes "\<And>y. heldName st = Some y \<Longrightarrow> findByName y E1 = findByName y E"
  shows "toJSON E1 st = toJSON E st"
proof (cases st)
  case (Addition x ty ta)
  then show ?thesis by (simp add: toJSON_def)
next
  case (Merge x ty args ref)
  show ?thesis
  proof (cases ref)
    case (OwnArray cs)
    with Merge show ?thesis by (simp add: toJSON_def)
  next
    case (ArrayOf y)
    with Merge assms [of y] show ?thesis by (simp add: toJSON_def)
  qed
qed

lemma map_filter_eq:
  assumes "\<And>x. x \<in> set xs \<Longrightarrow> f x = g x"
  shows "List.map_filter f xs = List.map_filter g xs"
  using assms
proof (induction xs)
  case Nil
  show ?case by (simp add: List.map_filter_simps)
next
  case (Cons a xs)
  have head: "f a = g a" by (rule Cons.prems) simp
  have "List.map_filter f xs = List.map_filter g xs"
    by (rule Cons.IH) (simp add: Cons.prems)
  with head show ?case by (simp add: List.map_filter_simps split: option.splits)
qed

lemma map_filter_Cons_None:
  "f x = None \<Longrightarrow> List.map_filter f (x # xs) = List.map_filter f xs"
  by (simp add: List.map_filter_simps)

lemma map_filter_Cons_Some:
  "f x = Some y \<Longrightarrow> List.map_filter f (x # xs) = y # List.map_filter f xs"
  by (simp add: List.map_filter_simps)

text \<open>
  After a turn for a property named \<open>x\<close> has stored an array, what was staged under other
  names and what the remaining properties, all of other names, stage is as before.
\<close>

lemma store_frame:
  assumes "\<And>st y. st \<in> set sts \<Longrightarrow> heldName st = Some y \<Longrightarrow> y \<noteq> x"
    and "\<And>q. q \<in> set ps \<Longrightarrow> name q \<noteq> x"
  shows "map (toJSON (storeChoices x merged E)) sts = map (toJSON E) sts"
    and "List.map_filter (stagedFor (storeChoices x merged E)) ps
           = List.map_filter (stagedFor E) ps"
proof -
  show "map (toJSON (storeChoices x merged E)) sts = map (toJSON E) sts"
  proof (rule map_cong [OF refl])
    fix st assume "st \<in> set sts"
    then show "toJSON (storeChoices x merged E) st = toJSON E st"
      using assms(1) by (intro toJSON_cong findByName_storeChoices_other) blast
  qed
  show "List.map_filter (stagedFor (storeChoices x merged E)) ps
      = List.map_filter (stagedFor E) ps"
  proof (rule map_filter_eq)
    fix q assume "q \<in> set ps"
    then show "stagedFor (storeChoices x merged E) q = stagedFor E q"
      using assms(2) by (intro stagedFor_cong findByName_storeChoices_other) blast
  qed
qed

lemma syncLoop_absent:
  assumes "findByName (name p) E = None"
  shows "syncLoop E sts (p # ps)
           = syncLoop E (sts @ [Addition (name p) (type p) (typeArgs p)]) ps"
  using assms by simp

lemma syncLoop_other_type:
  assumes "findByName (name p) E = Some e"
    and "\<not> (type p = TextChoices \<and> type e = TextChoices)"
  shows "syncLoop E sts (p # ps) = syncLoop E sts ps"
  using assms by auto

lemma syncLoop_nothing_new:
  assumes "findByName (name p) E = Some e"
    and "type p = TextChoices" and "type e = TextChoices"
    and "newChoicesFor e p = []"
  shows "syncLoop E sts (p # ps)
           = syncLoop (storeChoices (name p) (choicesOf e @ newChoicesFor e p) E) sts ps"
  using assms by (simp add: mergeLoop_existing)

lemma syncLoop_merge:
  assumes "findByName (name p) E = Some e"
    and "type p = TextChoices" and "type e = TextChoices"
    and "newChoicesFor e p \<noteq> []"
  shows "syncLoop E sts (p # ps)
           = syncLoop (storeChoices (name p) (choicesOf e @ newChoicesFor e p) E)
               (sts @ [Merge (name p) (type p) (spreadArgs e)
                         (if hasArray e then ArrayOf (name p)
                          else OwnArray (choicesOf e @ newChoicesFor e p))])
               ps"
  using assms by (simp add: mergeLoop_existing)

lemma toJSON_merge:
  assumes "findByName (name p) E = Some e"
    and "type p = TextChoices" and "type e = TextChoices"
    and "newChoicesFor e p \<noteq> []"
  shows "stagedFor E p =
     Some (toJSON (storeChoices (name p) (choicesOf e @ newChoicesFor e p) E)
             (Merge (name p) (type p) (spreadArgs e)
                (if hasArray e then ArrayOf (name p)
                 else OwnArray (choicesOf e @ newChoicesFor e p))))"
  using assms
  by (simp add: stagedFor_def toJSON_def findByName_storeChoices_same choicesOf_stored)

declare syncLoop.simps(2) [simp del]

lemma syncLoop_staged:
  assumes "distinct (map name ps)"
    and "\<And>st y. st \<in> set sts \<Longrightarrow> heldName st = Some y \<Longrightarrow> y \<notin> name ` set ps"
  shows "map (toJSON (fst (syncLoop E sts ps))) (snd (syncLoop E sts ps))
           = map (toJSON E) sts @ List.map_filter (stagedFor E) ps"
  using assms
proof (induction ps arbitrary: E sts)
  case Nil
  show ?case by (simp add: List.map_filter_simps)
next
  case (Cons p ps)
  from Cons.prems(1) have dist: "distinct (map name ps)"
    and notin: "name p \<notin> name ` set ps"
    by simp_all
  from notin have fresh: "\<And>q. q \<in> set ps \<Longrightarrow> name q \<noteq> name p"
    by (metis image_eqI)
  have held_p: "\<And>st y. st \<in> set sts \<Longrightarrow> heldName st = Some y \<Longrightarrow> y \<noteq> name p"
    using Cons.prems(2) by fastforce
  have held_ps: "\<And>st y. st \<in> set sts \<Longrightarrow> heldName st = Some y \<Longrightarrow> y \<notin> name ` set ps"
    using Cons.prems(2) by fastforce
  show ?case
  proof (cases "findByName (name p) E")
    case None
    let ?a = "Addition (name p) (type p) (typeArgs p)"
    have held_a: "\<And>st y. st \<in> set (sts @ [?a]) \<Longrightarrow> heldName st = Some y
        \<Longrightarrow> y \<notin> name ` set ps"
      using held_ps by auto
    have "map (toJSON (fst (syncLoop E (sts @ [?a]) ps))) (snd (syncLoop E (sts @ [?a]) ps))
        = map (toJSON E) (sts @ [?a]) @ List.map_filter (stagedFor E) ps"
      using dist held_a by (rule Cons.IH)
    moreover have "stagedFor E p = Some (toJSON E ?a)"
      using None by (simp add: stagedFor_def toJSON_def)
    ultimately show ?thesis
      by (simp add: syncLoop_absent [OF None] map_filter_Cons_Some)
  next
    case (Some e)
    show ?thesis
    proof (cases "type p = TextChoices \<and> type e = TextChoices")
      case False
      have "stagedFor E p = None"
        using Some False by (auto simp: stagedFor_def)
      moreover have "map (toJSON (fst (syncLoop E sts ps))) (snd (syncLoop E sts ps))
          = map (toJSON E) sts @ List.map_filter (stagedFor E) ps"
        using dist held_ps by (rule Cons.IH)
      ultimately show ?thesis
        by (simp add: syncLoop_other_type [OF Some False] map_filter_Cons_None)
    next
      case True
      then have tp: "type p = TextChoices" and te: "type e = TextChoices" by simp_all
      define E1 where "E1 = storeChoices (name p) (choicesOf e @ newChoicesFor e p) E"
      have frame_sts: "map (toJSON E1) sts = map (toJSON E) sts"
        unfolding E1_def using held_p fresh by (rule store_frame(1))
      have frame_ps: "List.map_filter (stagedFor E1) ps = List.map_filter (stagedFor E) ps"
        unfolding E1_def using held_p fresh by (rule store_frame(2))
      show ?thesis
      proof (cases "newChoicesFor e p = []")
        case True
        have "stagedFor E p = None"
          using Some True by (simp add: stagedFor_def)
        moreover have "map (toJSON (fst (syncLoop E1 sts ps))) (snd (syncLoop E1 sts ps))
            = map (toJSON E1) sts @ List.map_filter (stagedFor E1) ps"
          using dist held_ps by (rule Cons.IH)
        ultimately show ?thesis
          by (simp add: syncLoop_nothing_new [OF Some tp te True] E1_def [symmetric]
              frame_sts frame_ps map_filter_Cons_None)
      next
        case False
        let ?m = "Merge (name p) (type p) (spreadArgs e)
                    (if hasArray e then ArrayOf (name p)
                     else OwnArray (choicesOf e @ newChoicesFor e p))"
        have held_m: "\<And>st y. st \<in> set (sts @ [?m]) \<Longrightarrow> heldName st = Some y
            \<Longrightarrow> y \<notin> name ` set ps"
          using held_ps notin by (auto split: if_splits)
        have "map (toJSON (fst (syncLoop E1 (sts @ [?m]) ps)))
              (snd (syncLoop E1 (sts @ [?m]) ps))
            = map (toJSON E1) (sts @ [?m]) @ List.map_filter (stagedFor E1) ps"
          using dist held_m by (rule Cons.IH)
        moreover have "stagedFor E p = Some (toJSON E1 ?m)"
          unfolding E1_def by (rule toJSON_merge [OF Some tp te False])
        ultimately show ?thesis
          by (simp add: syncLoop_merge [OF Some tp te False] E1_def [symmetric]
              frame_sts frame_ps map_filter_Cons_Some)
      qed
    qed
  qed
qed

lemma syncTagSchema_staged:
  assumes "distinct (map name ps)"
  shows "syncTagSchema (Inr (Some \<lparr>properties = Some schema\<rparr>)) ps =
     (if List.map_filter (stagedFor schema) ps = [] then None
      else Some (List.map_filter (stagedFor schema) ps))"
proof -
  obtain E' sts' where loop: "syncLoop schema [] ps = (E', sts')"
    by (cases "syncLoop schema [] ps")
  from syncLoop_staged [OF assms, of "[]" schema] loop
  have eq: "map (toJSON E') sts' = List.map_filter (stagedFor schema) ps"
    by simp
  then have "sts' = [] \<longleftrightarrow> List.map_filter (stagedFor schema) ps = []"
    by (metis map_is_Nil_conv)
  with eq loop show ?thesis
    by (simp add: syncTagSchema_def)
qed

text \<open>
  C2. For an existing schema property and a new formatted property of the same name, both
  of type TextChoices, the reconciler appends to the existing choices, kept in order,
  exactly the new choices whose name is not among the existing choice names; it stages
  that one update when at least one choice was appended and nothing otherwise; the staged
  type arguments are the existing ones with the merged choices and the sub-type
  \<^verbatim>\<open>multi\<close>, every other field kept.
\<close>

theorem syncTagSchema_merges_choices:
  assumes "findByName (name p) schema = Some e"
    and "type p = TextChoices" and "type e = TextChoices"
    and "added = filter (\<lambda>nc. n nc \<notin> set (map n (choicesOf e))) (choicesOf p)"
  shows "syncTagSchema (Inr (Some \<lparr>properties = Some schema\<rparr>)) [p] =
           (if added = [] then None
            else Some [\<lparr>name = name p, type = TextChoices,
                        typeArgs = Some ((spreadArgs e)
                          \<lparr>choices := Some (choicesOf e @ added),
                           subType := Some ''multi''\<rparr>)\<rparr>])
         \<and> other ((spreadArgs e)\<lparr>choices := Some (choicesOf e @ added),
                                  subType := Some ''multi''\<rparr>)
             = (case typeArgs e of None \<Rightarrow> [] | Some ta \<Rightarrow> other ta)"
proof -
  have "distinct (map name [p])" by simp
  then have "syncTagSchema (Inr (Some \<lparr>properties = Some schema\<rparr>)) [p] =
     (if List.map_filter (stagedFor schema) [p] = [] then None
      else Some (List.map_filter (stagedFor schema) [p]))"
    by (rule syncTagSchema_staged)
  moreover have "added = newChoicesFor e p"
    using assms(4) by (simp add: newChoicesFor_def)
  ultimately show ?thesis
    using assms(1-3)
    by (simp add: List.map_filter_simps stagedFor_def spreadArgs_def split: option.splits)
qed

lemma formatted_genres:
  "formatProperty (\<lambda>s. NaN) (\<lambda>s. None) prop_genres =
     \<lparr>name = ''genre'', type = TextChoices,
      typeArgs = Some \<lparr>subType = Some ''multi'',
                       choices = Some [\<lparr>n = ''fiction'', c = ''''\<rparr>, \<lparr>n = ''nonfiction'', c = ''''\<rparr>],
                       other = []\<rparr>,
      value = VArr [''fiction'', ''nonfiction'']\<rparr>"
  by (simp add: formatProperty_def prop_genres_def trim_def isSpace_def)

theorem syncTagSchema_merges_choices_witness:
  "syncTagSchema (Inr (Some \<lparr>properties = Some schema_genre\<rparr>))
       [formatProperty (\<lambda>s. NaN) (\<lambda>s. None) prop_genres]
     = Some [\<lparr>name = ''genre'', type = TextChoices,
              typeArgs = Some \<lparr>subType = Some ''multi'',
                               choices = Some [\<lparr>n = ''fiction'', c = ''blue''\<rparr>,
                                               \<lparr>n = ''nonfiction'', c = ''''\<rparr>],
                               other = [(''sortable'', ''true'')]\<rparr>\<rparr>]"
proof -
  let ?p = "formatProperty (\<lambda>s. NaN) (\<lambda>s. None) prop_genres"
  let ?e = "\<lparr>name = ''genre'', type = TextChoices,
       typeArgs = Some \<lparr>subType = Some ''multi'',
                        choices = Some [\<lparr>n = ''fiction'', c = ''blue''\<rparr>],
                        other = [(''sortable'', ''true'')]\<rparr>\<rparr>"
  have a1: "findByName (name ?p) schema_genre = Some ?e"
    by (simp add: formatted_genres schema_genre_def findByName_def)
  have a2: "type ?p = TextChoices" by (simp add: formatted_genres)
  have a3: "type ?e = TextChoices" by simp
  have a4: "[\<lparr>n = ''nonfiction'', c = ''''\<rparr>]
      = filter (\<lambda>nc. n nc \<notin> set (map n (choicesOf ?e))) (choicesOf ?p)"
    by (simp add: formatted_genres choicesOf_def)
  from syncTagSchema_merges_choices [OF a1 a2 a3 a4]
  show ?thesis by (simp add: formatted_genres choicesOf_def spreadArgs_def)
qed

subsection \<open>The schema after the staged changes\<close>

lemma findByName_upsert:
  "findByName x (upsert d ps) = (if x = name d then Some d else findByName x ps)"
  by (induction ps) (auto simp: findByName_def)

lemma find_append_case:
  "List.find P (xs @ ys) = (case List.find P xs of Some x \<Rightarrow> Some x | None \<Rightarrow> List.find P ys)"
  by (induction xs) simp_all

lemma findByName_setProperties:
  "findByName x (setProperties schema ds) =
     (case List.find (\<lambda>d. name d = x) (rev ds) of
        Some d \<Rightarrow> Some d
      | None \<Rightarrow> findByName x schema)"
proof (induction ds arbitrary: schema)
  case Nil
  show ?case by (simp add: setProperties_def)
next
  case (Cons d ds)
  have "setProperties schema (d # ds) = setProperties (upsert d schema) ds"
    by (simp add: setProperties_def)
  then show ?case
    by (auto simp: Cons.IH findByName_upsert find_append_case split: option.splits)
qed

lemma find_SomeD:
  assumes "List.find P xs = Some x"
  shows "x \<in> set xs \<and> P x"
  using assms by (induction xs) (auto split: if_splits)

lemma stagedFor_name:
  assumes "stagedFor schema q = Some d"
  shows "name d = name q"
  using assms by (auto simp: stagedFor_def split: option.splits if_splits)

lemma in_map_filter:
  "y \<in> set (List.map_filter f xs) \<longleftrightarrow> (\<exists>x \<in> set xs. f x = Some y)"
  by (induction xs) (auto simp: List.map_filter_simps split: option.splits)

lemma same_name_same_prop:
  assumes "distinct (map name ps)" and "p \<in> set ps" and "q \<in> set ps" and "name q = name p"
  shows "q = p"
  using assms by (meson distinct_map inj_onD)

lemma staged_lookup:
  assumes "distinct (map name ps)" and "p \<in> set ps"
  shows "List.find (\<lambda>d. name d = name p) (rev (List.map_filter (stagedFor schema) ps))
           = stagedFor schema p"
proof -
  let ?sts = "rev (List.map_filter (stagedFor schema) ps)"
  have only: "d = d'" if "d \<in> set ?sts" "name d = name p" "stagedFor schema p = Some d'"
    for d d'
  proof -
    from that(1) obtain q where q: "q \<in> set ps" "stagedFor schema q = Some d"
      by (auto simp: in_map_filter)
    then have "name q = name p" using that(2) stagedFor_name by fastforce
    with assms q(1) have "q = p" by (rule same_name_same_prop)
    with q(2) that(3) show ?thesis by simp
  qed
  have none: "\<not> (d \<in> set ?sts \<and> name d = name p)" if "stagedFor schema p = None" for d
  proof
    assume d: "d \<in> set ?sts \<and> name d = name p"
    then obtain q where q: "q \<in> set ps" "stagedFor schema q = Some d"
      by (auto simp: in_map_filter)
    then have "name q = name p" using d stagedFor_name by fastforce
    with assms q(1) have "q = p" by (rule same_name_same_prop)
    with q(2) that show False by simp
  qed
  show ?thesis
  proof (cases "stagedFor schema p")
    case None
    then show ?thesis using none by (simp add: find_None_iff)
  next
    case (Some d)
    with assms(2) have "d \<in> set ?sts" by (auto simp: in_map_filter)
    moreover from Some have "name d = name p" by (rule stagedFor_name)
    ultimately have "List.find (\<lambda>d. name d = name p) ?sts \<noteq> None"
      by (auto simp: find_None_iff)
    then obtain d' where d': "List.find (\<lambda>d. name d = name p) ?sts = Some d'" by blast
    then have "d' \<in> set ?sts" "name d' = name p"
      by (auto dest: find_SomeD)
    then have "d' = d" using Some by (rule only)
    with d' Some show ?thesis by simp
  qed
qed

lemma nothing_new_after_addition:
  "filter (\<lambda>nc. n nc \<notin> set (map n cs)) cs = []"
  by (induction cs) auto

lemma nothing_new_after_merge:
  "filter (\<lambda>nc. n nc \<notin> set (map n (es @ filter (\<lambda>nc. n nc \<notin> set (map n es)) cs))) cs = []"
  by (auto simp: filter_empty_conv)

text \<open>Once what a property staged is in the schema under its name, it stages nothing.\<close>

lemma stagedFor_settled:
  assumes "stagedFor schema p = Some d"
    and "findByName (name p) schema' = Some d"
  shows "stagedFor schema' p = None"
proof (cases "findByName (name p) schema")
  case None
  with assms(1) have d: "d = \<lparr>name = name p, type = type p, typeArgs = typeArgs p\<rparr>"
    by (simp add: stagedFor_def)
  then have "newChoicesFor d p = []"
    by (simp add: newChoicesFor_def choicesOf_def nothing_new_after_addition)
  with assms(2) show ?thesis by (simp add: stagedFor_def)
next
  case (Some e)
  with assms(1) have d: "d = \<lparr>name = name p, type = type p,
      typeArgs = Some ((spreadArgs e)
        \<lparr>choices := Some (choicesOf e @ newChoicesFor e p), subType := Some ''multi''\<rparr>)\<rparr>"
    by (simp add: stagedFor_def split: if_splits)
  then have cd: "choicesOf d =
      choicesOf e @ filter (\<lambda>nc. n nc \<notin> set (map n (choicesOf e))) (choicesOf p)"
    by (simp add: choicesOf_def newChoicesFor_def)
  have "newChoicesFor d p = []"
    unfolding newChoicesFor_def cd by (rule nothing_new_after_merge)
  with assms(2) show ?thesis by (simp add: stagedFor_def)
qed

lemma map_filter_nothing:
  assumes "\<And>x. x \<in> set xs \<Longrightarrow> f x = None"
  shows "List.map_filter f xs = []"
  using assms by (induction xs) (simp_all add: List.map_filter_simps)

lemma reconcile_staged:
  assumes "distinct (map name ps)"
  shows "reconcile schema ps = setProperties schema (List.map_filter (stagedFor schema) ps)"
  by (simp add: reconcile_def syncTagSchema_staged [OF assms] setProperties_def)

lemma second_pass_stages_nothing:
  assumes "distinct (map name ps)"
  shows "List.map_filter (stagedFor (reconcile schema ps)) ps = []"
proof (rule map_filter_nothing)
  fix p assume p: "p \<in> set ps"
  have look: "findByName (name p) (reconcile schema ps) =
      (case stagedFor schema p of Some d \<Rightarrow> Some d | None \<Rightarrow> findByName (name p) schema)"
    by (simp add: reconcile_staged [OF assms] findByName_setProperties
        staged_lookup [OF assms p])
  show "stagedFor (reconcile schema ps) p = None"
  proof (cases "stagedFor schema p")
    case None
    with look have "findByName (name p) (reconcile schema ps) = findByName (name p) schema"
      by simp
    then have "stagedFor (reconcile schema ps) p = stagedFor schema p"
      by (rule stagedFor_cong)
    with None show ?thesis by simp
  next
    case (Some d)
    with look have "findByName (name p) (reconcile schema ps) = Some d" by simp
    with Some show ?thesis by (rule stagedFor_settled)
  qed
qed

text \<open>
  C1. Schema reconciliation is idempotent. For every tag schema and every formatted
  property list (a property set: no two of its properties have the same name), after the
  staged changes of a first reconciliation pass are applied, a second pass with the same
  list stages nothing, neither an addition nor a merge of choices: no update command is
  issued and the schema is the same after it.
\<close>

theorem syncTagSchema_idempotent:
  assumes "distinct (map name props)"
  shows "syncTagSchema (Inr (Some \<lparr>properties = Some (reconcile schema props)\<rparr>)) props = None
         \<and> reconcile (reconcile schema props) props = reconcile schema props"
proof -
  have "syncTagSchema (Inr (Some \<lparr>properties = Some (reconcile schema props)\<rparr>)) props = None"
    by (simp add: syncTagSchema_staged [OF assms] second_pass_stages_nothing [OF assms])
  then show ?thesis by (simp add: reconcile_def [of "reconcile schema props"])
qed

theorem syncTagSchema_idempotent_witness:
  "distinct (map name props_book)
   \<and> reconcile schema_genre props_book =
       [\<lparr>name = ''genre'', type = TextChoices,
         typeArgs = Some \<lparr>subType = Some ''multi'',
                          choices = Some [\<lparr>n = ''fiction'', c = ''blue''\<rparr>,
                                          \<lparr>n = ''nonfiction'', c = ''''\<rparr>],
                          other = [(''sortable'', ''true'')]\<rparr>\<rparr>,
        \<lparr>name = ''title'', type = Text, typeArgs = None\<rparr>]
   \<and> syncTagSchema (Inr (Some \<lparr>properties = Some (reconcile schema_genre props_book)\<rparr>))
         props_book = None
   \<and> reconcile (reconcile schema_genre props_book) props_book
       = reconcile schema_genre props_book"
proof -
  have d: "distinct (map name props_book)" by (simp add: props_book_def)
  have r: "reconcile schema_genre props_book =
       [\<lparr>name = ''genre'', type = TextChoices,
         typeArgs = Some \<lparr>subType = Some ''multi'',
                          choices = Some [\<lparr>n = ''fiction'', c = ''blue''\<rparr>,
                                          \<lparr>n = ''nonfiction'', c = ''''\<rparr>],
                          other = [(''sortable'', ''true'')]\<rparr>\<rparr>,
        \<lparr>name = ''title'', type = Text, typeArgs = None\<rparr>]"
    by (simp add: syncTagSchema_def reconcile_def setProperties_def props_book_def
        schema_genre_def syncLoop.simps findByName_def toJSON_def choicesOf_def
        spreadArgs_def hasArray_def)
  from syncTagSchema_idempotent [OF d, of schema_genre] d r
  show ?thesis by simp
qed

end
